theory Spec2Isabelle
  imports Complex_Main
begin

section \<open>The Gecko transcript plugin of wavesurfer.js\<close>

text \<open>
  A shallow embedding of the class \<open>GeckoPlugin\<close>: its constructor and the methods
  \<open>init\<close>, \<open>destroy\<close>, \<open>render\<close>, \<open>bindClick\<close> and \<open>getRenderedAnnotation\<close>.

  \<^item> A JavaScript string is a \<open>string\<close> holding its UTF-8 bytes, the encoding of the source
    file itself.
  \<^item> A time is the exact value of a finite double, a rational number; on finite doubles
    the comparisons of JavaScript are the comparisons of the rationals.
  \<^item> The DOM is a store of nodes: an element is an address into a list of node records, so
    that \<open>appendChild\<close> on an element which is already part of a tree is seen through
    every reference to it, as \<open>render\<close> relies on.
  \<^item> A thrown exception is a value of type \<open>error\<close>; a stateful method that throws
    returns the exception together with the state reached when it was thrown.
\<close>

subsection \<open>Values\<close>

datatype error = TypeError | NotFoundError | SyntaxError | Error string

type_synonym addr = nat

type_synonym closure = nat

text \<open>The input document: \<open>{ monologues: [ { start, end, terms: [ { text }, ... ] }, ... ] }\<close>.\<close>

record jterm =
  term_text :: string

record monologue =
  mono_start :: rat
  mono_end :: rat
  mono_terms :: "jterm list"

record document =
  monologues :: "monologue list"

text \<open>The object \<open>anno\<close> built by the loader: \<open>{ id, start, end, text }\<close>.\<close>

record annotation =
  anno_id :: nat
  anno_start :: rat
  anno_end :: rat
  anno_text :: string

text \<open>The field \<open>this.data\<close>: \<open>{ media: {}, annotations: [] }\<close>.\<close>

record gdata =
  media :: unit
  annotations :: "annotation list"

datatype container_param = Selector string | Elem addr | NoContainer

record gparams =
  param_container :: container_param
  url :: "string option"
  deferInit :: "bool option"

datatype notification = Ready gdata | Select rat rat

subsection \<open>Numbers and strings of the language\<close>

text \<open>\<open>String(n)\<close> for an array index \<open>n\<close>: its decimal digits.\<close>

definition digit_char :: "nat \<Rightarrow> char" where
  "digit_char d = char_of (48 + d)"

fun toDecimal :: "nat \<Rightarrow> string" where
  "toDecimal n = (if n < 10 then [digit_char n] else toDecimal (n div 10) @ [digit_char (n mod 10)])"

declare toDecimal.simps [simp del]

text \<open>
  \<open>Number.prototype.toFixed(f)\<close> of ECMAScript, step by step, on the exact value \<open>x\<close>.
  The conversion \<open>ts\<close> is \<open>Number::toString\<close>, which \<open>toFixed\<close> falls back to from
  \<open>10^21\<close> on; it is a parameter.
\<close>

definition toFixed :: "(rat \<Rightarrow> string) \<Rightarrow> nat \<Rightarrow> rat \<Rightarrow> string" where
  "toFixed ts f x0 =
     (let s = (if x0 < 0 then ''-'' else '''');
          x = (if x0 < 0 then - x0 else x0);
          m = (if x \<ge> 10 ^ 21 then ts x
               else
                 let n = nat \<lfloor>x * 10 ^ f + 1 / 2\<rfloor>;
                     m1 = (if n = 0 then ''0'' else toDecimal n)
                 in if f \<noteq> 0
                    then
                      let k = length m1;
                          m2 = (if k \<le> f then replicate (f + 1 - k) (CHR ''0'') @ m1 else m1);
                          k2 = (if k \<le> f then f + 1 else k)
                      in take (k2 - f) m2 @ ''.'' @ drop (k2 - f) m2
                    else m1)
      in s @ m)"

text \<open>
  \<open>parseInt(string)\<close> of ECMAScript, called without a radix: leading white space is
  skipped, a sign is read, the prefix \<open>0x\<close> selects radix 16, and the longest prefix of
  digits is the value; \<open>None\<close> is \<open>NaN\<close>. The value is the mathematical integer (a double
  holds it exactly below \<open>2^53\<close>, far above the length of any array).
\<close>

definition whiteSpace :: "string list" where
  "whiteSpace =
     [[char_of (0x09 :: nat)], [char_of (0x0A :: nat)], [char_of (0x0B :: nat)],
      [char_of (0x0C :: nat)], [char_of (0x0D :: nat)], [char_of (0x20 :: nat)],
      map char_of [0xC2, 0xA0 :: nat],
      map char_of [0xE1, 0x9A, 0x80 :: nat],
      map char_of [0xE2, 0x80, 0x80 :: nat], map char_of [0xE2, 0x80, 0x81 :: nat],
      map char_of [0xE2, 0x80, 0x82 :: nat], map char_of [0xE2, 0x80, 0x83 :: nat],
      map char_of [0xE2, 0x80, 0x84 :: nat], map char_of [0xE2, 0x80, 0x85 :: nat],
      map char_of [0xE2, 0x80, 0x86 :: nat], map char_of [0xE2, 0x80, 0x87 :: nat],
      map char_of [0xE2, 0x80, 0x88 :: nat], map char_of [0xE2, 0x80, 0x89 :: nat],
      map char_of [0xE2, 0x80, 0x8A :: nat],
      map char_of [0xE2, 0x80, 0xA8 :: nat], map char_of [0xE2, 0x80, 0xA9 :: nat],
      map char_of [0xE2, 0x80, 0xAF :: nat],
      map char_of [0xE2, 0x81, 0x9F :: nat],
      map char_of [0xE3, 0x80, 0x80 :: nat],
      map char_of [0xEF, 0xBB, 0xBF :: nat]]"

fun startsWith :: "string \<Rightarrow> string \<Rightarrow> bool" where
  "startsWith s [] = True"
| "startsWith [] (c # p) = False"
| "startsWith (d # s) (c # p) = (d = c \<and> startsWith s p)"

fun trimStart :: "nat \<Rightarrow> string \<Rightarrow> string" where
  "trimStart 0 s = s"
| "trimStart (Suc k) s =
     (case filter (startsWith s) whiteSpace of
        [] \<Rightarrow> s
      | w # _ \<Rightarrow> trimStart k (drop (length w) s))"

definition digitValue :: "nat \<Rightarrow> char \<Rightarrow> nat option" where
  "digitValue radix c =
     (let n = (of_char c :: nat);
          v = (if 48 \<le> n \<and> n \<le> 57 then Some (n - 48)
               else if 97 \<le> n \<and> n \<le> 122 then Some (n - 87)
               else if 65 \<le> n \<and> n \<le> 90 then Some (n - 55)
               else None)
      in case v of None \<Rightarrow> None | Some d \<Rightarrow> if d < radix then Some d else None)"

fun digitsValue :: "nat \<Rightarrow> nat \<Rightarrow> string \<Rightarrow> nat" where
  "digitsValue radix acc [] = acc"
| "digitsValue radix acc (c # cs) =
     (case digitValue radix c of
        None \<Rightarrow> acc
      | Some d \<Rightarrow> digitsValue radix (acc * radix + d) cs)"

definition parseInt :: "string \<Rightarrow> int option" where
  "parseInt inputString =
     (let s0 = trimStart (length inputString) inputString;
          sign = (if startsWith s0 ''-'' then - 1 else 1 :: int);
          s1 = (if startsWith s0 ''+'' \<or> startsWith s0 ''-'' then tl s0 else s0);
          hex = (startsWith s1 ''0x'' \<or> startsWith s1 ''0X'');
          r = (if hex then 16 else 10 :: nat);
          s2 = (if hex then drop 2 s1 else s1)
      in case s2 of
           [] \<Rightarrow> None
         | c # _ \<Rightarrow>
             (case digitValue r c of
                None \<Rightarrow> None
              | Some _ \<Rightarrow> Some (sign * int (digitsValue r 0 s2))))"

text \<open>\<open>array[index]\<close> for a number \<open>index\<close>: \<open>undefined\<close> unless it is an index of the array.\<close>

definition arrayGet :: "'a list \<Rightarrow> int option \<Rightarrow> 'a option" where
  "arrayGet xs index =
     (case index of
        None \<Rightarrow> None
      | Some i \<Rightarrow> if 0 \<le> i \<and> nat i < length xs then Some (xs ! nat i) else None)"

subsection \<open>The document object model\<close>

text \<open>
  An element of the page. The text set through \<open>textContent\<close> is kept in a field of the
  element instead of in a text node below it. \<open>clickListeners\<close> are the listeners
  registered for \<open>"click"\<close>; the only ones modelled are the closures that \<open>bindClick\<close>
  creates, each a fresh object named by a number.
\<close>

record node =
  localName :: string
  node_id :: string
  className :: string
  dataset :: "(string \<times> string) list"
  textContent :: string
  childNodes :: "addr list"
  parentNode :: "addr option"
  clickListeners :: "closure list"

type_synonym dom = "node list"

definition createElement :: "string \<Rightarrow> dom \<Rightarrow> addr \<times> dom" where
  "createElement tag h =
     (length h,
      h @ [\<lparr>localName = tag, node_id = [], className = [], dataset = [], textContent = [],
             childNodes = [], parentNode = None, clickListeners = []\<rparr>])"

definition set_id :: "addr \<Rightarrow> string \<Rightarrow> dom \<Rightarrow> dom" where
  "set_id a v h = h[a := (h ! a)\<lparr>node_id := v\<rparr>]"

definition set_className :: "addr \<Rightarrow> string \<Rightarrow> dom \<Rightarrow> dom" where
  "set_className a v h = h[a := (h ! a)\<lparr>className := v\<rparr>]"

fun assign :: "string \<Rightarrow> string \<Rightarrow> (string \<times> string) list \<Rightarrow> (string \<times> string) list" where
  "assign k v [] = [(k, v)]"
| "assign k v (p # ps) = (if fst p = k then (k, v) # ps else p # assign k v ps)"

definition set_dataset :: "addr \<Rightarrow> string \<Rightarrow> string \<Rightarrow> dom \<Rightarrow> dom" where
  "set_dataset a k v h = h[a := (h ! a)\<lparr>dataset := assign k v (dataset (h ! a))\<rparr>]"

text \<open>Every child of \<open>a\<close> leaves the tree: the effect of \<open>a.innerHTML = ""\<close> on the children.\<close>

fun orphan :: "addr list \<Rightarrow> dom \<Rightarrow> dom" where
  "orphan [] h = h"
| "orphan (c # cs) h = orphan cs (h[c := (h ! c)\<lparr>parentNode := None\<rparr>])"

definition removeChildren :: "addr \<Rightarrow> dom \<Rightarrow> dom" where
  "removeChildren a h =
     (let h1 = orphan (childNodes (h ! a)) h
      in h1[a := (h1 ! a)\<lparr>childNodes := []\<rparr>])"

definition set_textContent :: "addr \<Rightarrow> string \<Rightarrow> dom \<Rightarrow> dom" where
  "set_textContent a v h =
     (let h1 = removeChildren a h
      in h1[a := (h1 ! a)\<lparr>textContent := v\<rparr>])"

definition set_innerHTML_empty :: "addr \<Rightarrow> dom \<Rightarrow> dom" where
  "set_innerHTML_empty a h =
     (let h1 = removeChildren a h
      in h1[a := (h1 ! a)\<lparr>textContent := []\<rparr>])"

text \<open>\<open>p.appendChild(c)\<close>: \<open>c\<close> first leaves the parent it has, then becomes the last child of \<open>p\<close>.\<close>

definition detach :: "addr \<Rightarrow> dom \<Rightarrow> dom" where
  "detach c h =
     (case parentNode (h ! c) of
        None \<Rightarrow> h
      | Some q \<Rightarrow>
          (let h1 = h[q := (h ! q)\<lparr>childNodes := removeAll c (childNodes (h ! q))\<rparr>]
           in h1[c := (h1 ! c)\<lparr>parentNode := None\<rparr>]))"

definition appendChild :: "addr \<Rightarrow> addr \<Rightarrow> dom \<Rightarrow> dom" where
  "appendChild p c h =
     (let h1 = detach c h;
          h2 = h1[p := (h1 ! p)\<lparr>childNodes := childNodes (h1 ! p) @ [c]\<rparr>]
      in h2[c := (h2 ! c)\<lparr>parentNode := Some p\<rparr>])"

text \<open>
  \<open>p.removeChild(c)\<close>: a \<open>TypeError\<close> when \<open>c\<close> is \<open>undefined\<close>, a \<open>NotFoundError\<close> when
  \<open>c\<close> is not a child of \<open>p\<close>.
\<close>

definition removeChild :: "addr \<Rightarrow> addr option \<Rightarrow> dom \<Rightarrow> error + dom" where
  "removeChild p c h =
     (case c of
        None \<Rightarrow> Inl TypeError
      | Some t \<Rightarrow>
          if parentNode (h ! t) = Some p then Inr (detach t h) else Inl NotFoundError)"

text \<open>A listener already registered is not registered again; \<open>undefined\<close> removes nothing.\<close>

definition addEventListener :: "addr \<Rightarrow> closure \<Rightarrow> dom \<Rightarrow> dom" where
  "addEventListener a f h =
     h[a := (h ! a)\<lparr>clickListeners :=
          (if f \<in> set (clickListeners (h ! a)) then clickListeners (h ! a)
           else clickListeners (h ! a) @ [f])\<rparr>]"

definition removeEventListener :: "addr \<Rightarrow> closure option \<Rightarrow> dom \<Rightarrow> dom" where
  "removeEventListener a f h =
     (case f of
        None \<Rightarrow> h
      | Some g \<Rightarrow> h[a := (h ! a)\<lparr>clickListeners := removeAll g (clickListeners (h ! a))\<rparr>])"

text \<open>
  The path of an event dispatched at \<open>a\<close>: the element itself and its ancestors. The
  fuel bounds the walk along \<open>parentNode\<close>; the number of nodes is enough for a tree.
\<close>

fun eventPath :: "nat \<Rightarrow> dom \<Rightarrow> addr \<Rightarrow> addr list" where
  "eventPath 0 h a = [a]"
| "eventPath (Suc k) h a =
     a # (if a < length h
          then (case parentNode (h ! a) of None \<Rightarrow> [] | Some p \<Rightarrow> eventPath k h p)
          else [])"

text \<open>What is drawn below an element, read off the store down to a given depth.\<close>

datatype tree =
  Tree (t_name: string) (t_id: string) (t_class: string) (t_dataset: "(string \<times> string) list")
    (t_text: string) (t_children: "tree list")

fun view :: "nat \<Rightarrow> dom \<Rightarrow> addr \<Rightarrow> tree" where
  "view 0 h a =
     Tree (localName (h ! a)) (node_id (h ! a)) (className (h ! a)) (dataset (h ! a))
       (textContent (h ! a)) []"
| "view (Suc k) h a =
     Tree (localName (h ! a)) (node_id (h ! a)) (className (h ! a)) (dataset (h ! a))
       (textContent (h ! a)) (map (view k h) (childNodes (h ! a)))"

declare view.simps [simp del]

subsection \<open>The plugin\<close>

text \<open>
  The fields of a \<open>GeckoPlugin\<close> object, and the part of the world it acts on: the page,
  the notifications it has emitted, the requests it has issued that are still in flight,
  and the number of closures it has created.
\<close>

record gecko =
  data :: "gdata option"
  params :: gparams
  container :: addr
  table :: "addr option"
  onClick :: "closure option"
  page :: dom
  fired :: "notification list"
  fetches :: "string list"
  closures :: nat

text \<open>
  Modelled from the spec: \<open>fireEvent\<close> belongs to the observer that the host mixes into
  the plugin, which is not part of the sources. Emission calls the registered callbacks
  synchronously, so the model records the notification.
\<close>

definition fireEvent :: "notification \<Rightarrow> gecko \<Rightarrow> gecko" where
  "fireEvent n st = st\<lparr>fired := fired st @ [n]\<rparr>"

text \<open>
  The constructor. \<open>querySelector\<close> is \<open>document.querySelector\<close>, a parameter: it throws
  on a selector that is not valid and returns \<open>null\<close> (\<open>None\<close>) when nothing matches.
\<close>

definition resolveContainer ::
  "(string \<Rightarrow> error + addr option) \<Rightarrow> container_param \<Rightarrow> error + addr option" where
  "resolveContainer querySelector c =
     (case c of
        Selector s \<Rightarrow> querySelector s
      | Elem a \<Rightarrow> Inr (Some a)
      | NoContainer \<Rightarrow> Inr None)"

definition construct ::
  "(string \<Rightarrow> error + addr option) \<Rightarrow> dom \<Rightarrow> gparams \<Rightarrow> error + gecko" where
  "construct querySelector h ps =
     (case resolveContainer querySelector (param_container ps) of
        Inl e \<Rightarrow> Inl e
      | Inr None \<Rightarrow> Inl (Error ''No container for Gecko'')
      | Inr (Some c) \<Rightarrow>
          Inr \<lparr>data = None, params = ps, container = c, table = None, onClick = None,
               page = h, fired = [], fetches = [], closures = 0\<rparr>)"

text \<open>\<open>render\<close>: the body of the \<open>forEach\<close> for one annotation, then the loop, then the method.\<close>

text \<open>
  The string literal that \<open>render\<close> puts between the two times, byte for byte as it
  stands in the source file: the characters U+00E2, U+20AC and U+201C.
\<close>

definition separator :: string where
  "separator = map char_of [0xC3, 0xA2, 0xE2, 0x82, 0xAC, 0xE2, 0x80, 0x9C :: nat]"

definition render_row :: "(rat \<Rightarrow> string) \<Rightarrow> addr \<Rightarrow> annotation \<Rightarrow> dom \<Rightarrow> dom" where
  "render_row ts tbody anno h0 =
     (let (row, h1) = createElement ''tr'' h0;
          h2 = set_id row (''wavesurfer-annotation-'' @ toDecimal (anno_id anno)) h1;
          h3 = appendChild tbody row h2;
          (timeTd, h4) = createElement ''td'' h3;
          h5 = set_className timeTd ''wavesurfer-time'' h4;
          h6 = set_textContent timeTd
                 (toFixed ts 1 (anno_start anno) @ separator @ toFixed ts 1 (anno_end anno)) h5;
          h7 = appendChild row timeTd h6;
          (textTd, h8) = createElement ''td'' h7;
          h9 = set_id textTd (''wavesurfer-text-'' @ toDecimal (anno_id anno)) h8;
          h10 = set_dataset textTd ''ref'' (toDecimal (anno_id anno)) h9;
          h11 = set_dataset textTd ''start'' (ts (anno_start anno)) h10;
          h12 = set_dataset textTd ''end'' (ts (anno_end anno)) h11;
          h13 = set_textContent textTd (anno_text anno) h12;
          h14 = set_className textTd ''wavesurfer-tier-'' h13
      in appendChild row textTd h14)"

fun render_rows :: "(rat \<Rightarrow> string) \<Rightarrow> addr \<Rightarrow> annotation list \<Rightarrow> dom \<Rightarrow> dom" where
  "render_rows ts tbody [] h = h"
| "render_rows ts tbody (anno # rest) h = render_rows ts tbody rest (render_row ts tbody anno h)"

text \<open>
  \<open>render_dom\<close> is what \<open>render\<close> does to the page, statement by statement; it returns
  the table, which \<open>render\<close> keeps in \<open>this.table\<close>. \<open>render_head\<close> is its first part,
  down to the empty \<open>tbody\<close>; it returns the table and the \<open>tbody\<close>.
\<close>

definition render_head :: "dom \<Rightarrow> addr \<times> addr \<times> dom" where
  "render_head h0 =
     (let (tbl, h1) = createElement ''table'' h0;
          h2 = set_className tbl ''wavesurfer-annotations'' h1;
          (thead, h3) = createElement ''thead'' h2;
          (headRow, h4) = createElement ''tr'' h3;
          h5 = appendChild thead headRow h4;
          h6 = appendChild tbl thead h5;
          (timeTh, h7) = createElement ''th'' h6;
          h8 = set_textContent timeTh ''Time'' h7;
          h9 = set_className timeTh ''wavesurfer-time'' h8;
          h10 = appendChild headRow timeTh h9;
          (textTh, h11) = createElement ''th'' h10;
          h12 = set_className textTh ''wavesurfer-tier-'' h11;
          h13 = set_textContent textTh ''Text'' h12;
          h14 = appendChild headRow textTh h13;
          (tbody, h15) = createElement ''tbody'' h14
      in (tbl, tbody, appendChild tbl tbody h15))"

definition render_dom ::
  "(rat \<Rightarrow> string) \<Rightarrow> annotation list \<Rightarrow> addr \<Rightarrow> dom \<Rightarrow> addr \<times> dom" where
  "render_dom ts annos cont h0 =
     (let (tbl, tbody, h16) = render_head h0;
          h17 = render_rows ts tbody annos h16;
          h18 = set_innerHTML_empty cont h17
      in (tbl, appendChild cont tbl h18))"

definition render :: "(rat \<Rightarrow> string) \<Rightarrow> annotation list \<Rightarrow> gecko \<Rightarrow> gecko" where
  "render ts annos st =
     (let (tbl, h) = render_dom ts annos (container st) (page st)
      in st\<lparr>table := Some tbl, page := h\<rparr>)"

text \<open>
  \<open>bindClick\<close> and the handler it installs. An exception in a listener is reported by
  the browser and goes no further.
\<close>

definition onClick_handler :: "addr \<Rightarrow> gecko \<Rightarrow> (error \<times> gecko) + gecko" where
  "onClick_handler target st =
     (case map_of (dataset (page st ! target)) ''ref'' of
        None \<Rightarrow> Inr st
      | Some ref \<Rightarrow>
          (let index = parseInt ref
           in case data st of
                None \<Rightarrow> Inl (TypeError, st)
              | Some d \<Rightarrow>
                  (case arrayGet (annotations d) index of
                     None \<Rightarrow> Inr st
                   | Some annot \<Rightarrow> Inr (fireEvent (Select (anno_start annot) (anno_end annot)) st))))"

definition bindClick :: "gecko \<Rightarrow> gecko" where
  "bindClick st =
     (let f = closures st;
          st1 = st\<lparr>onClick := Some f, closures := Suc f\<rparr>
      in st1\<lparr>page := addEventListener (container st1) f (page st1)\<rparr>)"

text \<open>\<open>init\<close>, and the callback that runs when the response has been parsed.\<close>

fun map_monologues :: "nat \<Rightarrow> monologue list \<Rightarrow> error + annotation list" where
  "map_monologues index [] = Inr []"
| "map_monologues index (mon # rest) =
     (case mono_terms mon of
        [] \<Rightarrow> Inl TypeError
      | t # _ \<Rightarrow>
          (case map_monologues (Suc index) rest of
             Inl e \<Rightarrow> Inl e
           | Inr annos \<Rightarrow>
               Inr (\<lparr>anno_id = index, anno_start = mono_start mon, anno_end = mono_end mon,
                     anno_text = term_text t\<rparr> # annos)))"

definition truthy :: "string option \<Rightarrow> bool" where
  "truthy v = (case v of None \<Rightarrow> False | Some s \<Rightarrow> s \<noteq> [])"

definition init :: "gecko \<Rightarrow> gecko" where
  "init st =
     (let st1 = st\<lparr>data := Some \<lparr>media = (), annotations = []\<rparr>\<rparr>
      in if truthy (url (params st1))
         then st1\<lparr>fetches := fetches st1 @ [the (url (params st1))]\<rparr>
         else st1)"

definition onJson :: "(rat \<Rightarrow> string) \<Rightarrow> document \<Rightarrow> gecko \<Rightarrow> (error \<times> gecko) + gecko" where
  "onJson ts jsondata st =
     (case map_monologues 0 (monologues jsondata) of
        Inl e \<Rightarrow> Inl (e, st)
      | Inr annos \<Rightarrow>
          (let st1 = render ts annos st
           in case data st1 of
                None \<Rightarrow> Inl (TypeError, st1)
              | Some d \<Rightarrow>
                  (let st2 = st1\<lparr>data := Some (d\<lparr>annotations := annos\<rparr>)\<rparr>;
                       st3 = bindClick st2
                   in Inr (fireEvent (Ready (the (data st3))) st3))))"

text \<open>\<open>destroy\<close>.\<close>

definition destroy :: "gecko \<Rightarrow> (error \<times> gecko) + gecko" where
  "destroy st =
     (let st1 = st\<lparr>page := removeEventListener (container st) (onClick st) (page st)\<rparr>
      in case removeChild (container st1) (table st1) (page st1) of
           Inl e \<Rightarrow> Inl (e, st1)
         | Inr h \<Rightarrow> Inr (st1\<lparr>page := h\<rparr>))"

text \<open>\<open>getRenderedAnnotation\<close>: the callback given to \<open>some\<close> assigns \<open>result\<close> and stops the scan.\<close>

fun some_scan :: "rat \<Rightarrow> annotation list \<Rightarrow> annotation option \<Rightarrow> annotation option" where
  "some_scan time [] result = result"
| "some_scan time (annotation # rest) result =
     (if anno_start annotation \<le> time \<and> anno_end annotation \<ge> time
      then Some annotation
      else some_scan time rest result)"

definition getRenderedAnnotation :: "gecko \<Rightarrow> rat \<Rightarrow> error + annotation option" where
  "getRenderedAnnotation st time =
     (case data st of
        None \<Rightarrow> Inl TypeError
      | Some d \<Rightarrow> Inr (some_scan time (annotations d) None))"

subsection \<open>What happens around the plugin\<close>

text \<open>
  The events the browser delivers: a click on an element, the arrival of the parsed
  response of a request in flight, and the failure of such a request. A click runs the
  listeners of the container when the container is on the path of the event. A request
  that fails, and a callback that throws, leave no trace.
\<close>

datatype event = Click addr | Loaded document | LoadFailed

fun run_listeners :: "closure list \<Rightarrow> addr \<Rightarrow> gecko \<Rightarrow> gecko" where
  "run_listeners [] target st = st"
| "run_listeners (f # fs) target st =
     run_listeners fs target
       (case onClick_handler target st of Inl (e, st1) \<Rightarrow> st1 | Inr st1 \<Rightarrow> st1)"

definition deliver :: "(rat \<Rightarrow> string) \<Rightarrow> event \<Rightarrow> gecko \<Rightarrow> gecko" where
  "deliver ts ev st =
     (case ev of
        Click target \<Rightarrow>
          if container st \<in> set (eventPath (length (page st)) (page st) target)
          then run_listeners (clickListeners (page st ! container st)) target st
          else st
      | Loaded jsondata \<Rightarrow>
          (case fetches st of
             [] \<Rightarrow> st
           | u # us \<Rightarrow>
               (case onJson ts jsondata (st\<lparr>fetches := us\<rparr>) of
                  Inl (e, st1) \<Rightarrow> st1
                | Inr st1 \<Rightarrow> st1))
      | LoadFailed \<Rightarrow> st\<lparr>fetches := tl (fetches st)\<rparr>)"

fun run :: "(rat \<Rightarrow> string) \<Rightarrow> event list \<Rightarrow> gecko \<Rightarrow> gecko" where
  "run ts [] st = st"
| "run ts (ev # evs) st = run ts evs (deliver ts ev st)"

subsection \<open>The example of the specification\<close>

text \<open>
  The document with the monologues \<open>0 .. 1.25\<close> ("hi") and \<open>1.25 .. 3\<close> ("bye"), loaded
  into a page that holds the container and a paragraph inside it. \<open>example_toString\<close> is
  \<open>Number::toString\<close> on the three numbers of the example.
\<close>

definition example_document :: document where
  "example_document =
     \<lparr>monologues =
        [\<lparr>mono_start = 0, mono_end = 5 / 4, mono_terms = [\<lparr>term_text = ''hi''\<rparr>]\<rparr>,
         \<lparr>mono_start = 5 / 4, mono_end = 3, mono_terms = [\<lparr>term_text = ''bye''\<rparr>]\<rparr>]\<rparr>"

definition example_segments :: "annotation list" where
  "example_segments =
     [\<lparr>anno_id = 0, anno_start = 0, anno_end = 5 / 4, anno_text = ''hi''\<rparr>,
      \<lparr>anno_id = 1, anno_start = 5 / 4, anno_end = 3, anno_text = ''bye''\<rparr>]"

definition example_toString :: "rat \<Rightarrow> string" where
  "example_toString x =
     (if x = 0 then ''0'' else if x = 5 / 4 then ''1.25'' else if x = 3 then ''3'' else [])"

definition example_page :: dom where
  "example_page =
     [\<lparr>localName = ''div'', node_id = ''annotations'', className = [], dataset = [],
       textContent = [], childNodes = [1], parentNode = None, clickListeners = []\<rparr>,
      \<lparr>localName = ''p'', node_id = [], className = [], dataset = [],
       textContent = ''Loading'', childNodes = [], parentNode = Some 0, clickListeners = []\<rparr>]"

definition example_querySelector :: "string \<Rightarrow> error + addr option" where
  "example_querySelector s = (if s = ''#annotations'' then Inr (Some 0) else Inr None)"

definition example_params :: gparams where
  "example_params =
     \<lparr>param_container = Selector ''#annotations'', url = Some ''transcripts/OGVC_dlg.json'',
      deferInit = None\<rparr>"

definition example_constructed :: gecko where
  "example_constructed =
     \<lparr>data = None, params = example_params, container = 0, table = None, onClick = None,
      page = example_page, fired = [], fetches = [], closures = 0\<rparr>"

definition example_ready :: gecko where
  "example_ready = deliver example_toString (Loaded example_document) (init example_constructed)"

text \<open>The en dash (U+2013) in UTF-8, the separator that the specification names.\<close>

definition en_dash :: string where
  "en_dash = map char_of [0xE2, 0x80, 0x93 :: nat]"

subsection \<open>The rendered table, written out\<close>

text \<open>
  What \<open>render\<close> is shown below to produce. \<open>row_nodes\<close> are the three elements that one
  pass of the loop adds at the address \<open>base\<close>; \<open>head_nodes\<close> are the six elements
  created before the loop, as they stand at the end; \<open>table_tree\<close> is the table that
  results.
\<close>

definition row_nodes :: "(rat \<Rightarrow> string) \<Rightarrow> addr \<Rightarrow> addr \<Rightarrow> annotation \<Rightarrow> node list" where
  "row_nodes ts tbody base anno =
     [\<lparr>localName = ''tr'', node_id = ''wavesurfer-annotation-'' @ toDecimal (anno_id anno),
       className = [], dataset = [], textContent = [],
       childNodes = [Suc base, Suc (Suc base)], parentNode = Some tbody, clickListeners = []\<rparr>,
      \<lparr>localName = ''td'', node_id = [], className = ''wavesurfer-time'', dataset = [],
       textContent = toFixed ts 1 (anno_start anno) @ separator @ toFixed ts 1 (anno_end anno),
       childNodes = [], parentNode = Some base, clickListeners = []\<rparr>,
      \<lparr>localName = ''td'', node_id = ''wavesurfer-text-'' @ toDecimal (anno_id anno),
       className = ''wavesurfer-tier-'',
       dataset = [(''ref'', toDecimal (anno_id anno)), (''start'', ts (anno_start anno)),
                  (''end'', ts (anno_end anno))],
       textContent = anno_text anno,
       childNodes = [], parentNode = Some base, clickListeners = []\<rparr>]"

fun rows_nodes :: "(rat \<Rightarrow> string) \<Rightarrow> addr \<Rightarrow> addr \<Rightarrow> annotation list \<Rightarrow> node list" where
  "rows_nodes ts tbody base [] = []"
| "rows_nodes ts tbody base (anno # rest) =
     row_nodes ts tbody base anno @ rows_nodes ts tbody (base + 3) rest"

fun rows_addrs :: "addr \<Rightarrow> annotation list \<Rightarrow> addr list" where
  "rows_addrs base [] = []"
| "rows_addrs base (anno # rest) = base # rows_addrs (base + 3) rest"

definition head_nodes :: "addr option \<Rightarrow> addr \<Rightarrow> addr list \<Rightarrow> node list" where
  "head_nodes parent b rows =
     [\<lparr>localName = ''table'', node_id = [], className = ''wavesurfer-annotations'',
       dataset = [], textContent = [], childNodes = [b + 1, b + 5], parentNode = parent,
       clickListeners = []\<rparr>,
      \<lparr>localName = ''thead'', node_id = [], className = [], dataset = [], textContent = [],
       childNodes = [b + 2], parentNode = Some b, clickListeners = []\<rparr>,
      \<lparr>localName = ''tr'', node_id = [], className = [], dataset = [], textContent = [],
       childNodes = [b + 3, b + 4], parentNode = Some (b + 1), clickListeners = []\<rparr>,
      \<lparr>localName = ''th'', node_id = [], className = ''wavesurfer-time'', dataset = [],
       textContent = ''Time'', childNodes = [], parentNode = Some (b + 2),
       clickListeners = []\<rparr>,
      \<lparr>localName = ''th'', node_id = [], className = ''wavesurfer-tier-'', dataset = [],
       textContent = ''Text'', childNodes = [], parentNode = Some (b + 2),
       clickListeners = []\<rparr>,
      \<lparr>localName = ''tbody'', node_id = [], className = [], dataset = [], textContent = [],
       childNodes = rows, parentNode = Some b, clickListeners = []\<rparr>]"

definition row_tree :: "(rat \<Rightarrow> string) \<Rightarrow> annotation \<Rightarrow> tree" where
  "row_tree ts anno =
     Tree ''tr'' (''wavesurfer-annotation-'' @ toDecimal (anno_id anno)) [] [] []
       [Tree ''td'' [] ''wavesurfer-time'' []
          (toFixed ts 1 (anno_start anno) @ separator @ toFixed ts 1 (anno_end anno)) [],
        Tree ''td'' (''wavesurfer-text-'' @ toDecimal (anno_id anno)) ''wavesurfer-tier-''
          [(''ref'', toDecimal (anno_id anno)), (''start'', ts (anno_start anno)),
           (''end'', ts (anno_end anno))]
          (anno_text anno) []]"

definition table_tree :: "(rat \<Rightarrow> string) \<Rightarrow> annotation list \<Rightarrow> tree" where
  "table_tree ts annos =
     Tree ''table'' [] ''wavesurfer-annotations'' [] []
       [Tree ''thead'' [] [] [] []
          [Tree ''tr'' [] [] [] []
             [Tree ''th'' [] ''wavesurfer-time'' [] ''Time'' [],
              Tree ''th'' [] ''wavesurfer-tier-'' [] ''Text'' []]],
        Tree ''tbody'' [] [] [] [] (map (row_tree ts) annos)]"

text \<open>The children of an element of the page are elements of the page.\<close>

definition children_in_page :: "dom \<Rightarrow> addr \<Rightarrow> bool" where
  "children_in_page h a = (\<forall>c\<in>set (childNodes (h ! a)). c < length h)"

text \<open>The characters \<open>0\<close> to \<open>9\<close>.\<close>

definition decimal_digit :: "char \<Rightarrow> bool" where
  "decimal_digit c = (48 \<le> (of_char c :: nat) \<and> (of_char c :: nat) \<le> 57)"

section \<open>Properties\<close>

subsection \<open>The fields that rendering, binding and notifying leave alone\<close>

lemma render_fields [simp]:
  "data (render ts annos st) = data st"
  "params (render ts annos st) = params st"
  "container (render ts annos st) = container st"
  "onClick (render ts annos st) = onClick st"
  "fired (render ts annos st) = fired st"
  "fetches (render ts annos st) = fetches st"
  "closures (render ts annos st) = closures st"
  "table (render ts annos st) = Some (fst (render_dom ts annos (container st) (page st)))"
  "page (render ts annos st) = snd (render_dom ts annos (container st) (page st))"
  by (simp_all add: render_def split_beta)

lemma onJson_loaded:
  assumes "map_monologues 0 (monologues jsondata) = Inr annos" and "data st = Some d"
  shows "onJson ts jsondata st =
           Inr (fireEvent (Ready (d\<lparr>annotations := annos\<rparr>))
                 (bindClick ((render ts annos st)\<lparr>data := Some (d\<lparr>annotations := annos\<rparr>)\<rparr>)))"
  using assms by (simp add: onJson_def Let_def bindClick_def)

lemma loaded_data:
  assumes "map_monologues 0 (monologues jsondata) = Inr annos" and "data st = Some d"
  shows "data (case onJson ts jsondata st of Inl (e, s) \<Rightarrow> s | Inr s \<Rightarrow> s) =
           Some (d\<lparr>annotations := annos\<rparr>)"
  by (simp add: onJson_loaded[OF assms] fireEvent_def bindClick_def Let_def)

subsection \<open>The example, step by step\<close>

lemma example_annotations:
  "map_monologues 0 (monologues example_document) =
     Inr [\<lparr>anno_id = 0, anno_start = 0, anno_end = 5 / 4, anno_text = ''hi''\<rparr>,
          \<lparr>anno_id = 1, anno_start = 5 / 4, anno_end = 3, anno_text = ''bye''\<rparr>]"
  by (simp add: example_document_def)

lemma example_construct:
  "construct example_querySelector example_page example_params = Inr example_constructed"
  by (simp add: construct_def resolveContainer_def example_querySelector_def example_params_def
      example_constructed_def)

lemma example_init:
  "init example_constructed =
     example_constructed\<lparr>data := Some \<lparr>media = (), annotations = []\<rparr>,
       fetches := [''transcripts/OGVC_dlg.json'']\<rparr>"
  by (simp add: init_def example_constructed_def example_params_def truthy_def)

lemma example_ready_onJson:
  "example_ready =
     (case onJson example_toString example_document ((init example_constructed)\<lparr>fetches := []\<rparr>) of
        Inl (e, s) \<Rightarrow> s
      | Inr s \<Rightarrow> s)"
  by (simp add: example_ready_def deliver_def example_init)

lemma example_ready_data:
  "data example_ready =
     Some \<lparr>media = (), annotations =
         [\<lparr>anno_id = 0, anno_start = 0, anno_end = 5 / 4, anno_text = ''hi''\<rparr>,
          \<lparr>anno_id = 1, anno_start = 5 / 4, anno_end = 3, anno_text = ''bye''\<rparr>]\<rparr>"
proof -
  let ?st = "(init example_constructed)\<lparr>fetches := []\<rparr>"
  have d: "data ?st = Some \<lparr>media = (), annotations = []\<rparr>"
    by (simp add: example_init)
  show ?thesis
    unfolding example_ready_onJson
    using loaded_data[OF example_annotations d, of example_toString] by simp
qed

subsection \<open>Looking a time up\<close>

lemma some_scan_find:
  "some_scan t xs r =
     (case find (\<lambda>a. anno_start a \<le> t \<and> t \<le> anno_end a) xs of
        None \<Rightarrow> r
      | Some a \<Rightarrow> Some a)"
  by (induction xs) auto

lemma getRenderedAnnotation_find:
  "data st = Some d \<Longrightarrow>
   getRenderedAnnotation st t =
     Inr (find (\<lambda>a. anno_start a \<le> t \<and> t \<le> anno_end a) (annotations d))"
  by (simp add: getRenderedAnnotation_def some_scan_find split: option.splits)

lemma example_lookup:
  "getRenderedAnnotation example_ready (5 / 4) =
     Inr (Some \<lparr>anno_id = 0, anno_start = 0, anno_end = 5 / 4, anno_text = ''hi''\<rparr>)"
  by (simp add: getRenderedAnnotation_def example_ready_data)

text \<open>
  Claim C1. Once \<open>init\<close> has run, \<open>getRenderedAnnotation(t)\<close> returns the first annotation
  in list order whose interval contains \<open>t\<close>, both ends included, and returns nothing
  when no interval contains \<open>t\<close>. In the example with the two segments that meet at
  \<open>1.25\<close>, \<open>getRenderedAnnotation(1.25)\<close> is the segment with id 0.
\<close>

theorem getRenderedAnnotation_first_match:
  assumes "data st = Some d"
  shows "(\<exists>r. getRenderedAnnotation st t = Inr r \<and>
            (case r of
               None \<Rightarrow> \<forall>a\<in>set (annotations d). \<not> (anno_start a \<le> t \<and> t \<le> anno_end a)
             | Some a \<Rightarrow>
                 \<exists>i<length (annotations d). a = annotations d ! i \<and>
                   anno_start a \<le> t \<and> t \<le> anno_end a \<and>
                   (\<forall>j<i. \<not> (anno_start (annotations d ! j) \<le> t \<and>
                              t \<le> anno_end (annotations d ! j)))))
         \<and> getRenderedAnnotation example_ready (5 / 4) =
             Inr (Some \<lparr>anno_id = 0, anno_start = 0, anno_end = 5 / 4, anno_text = ''hi''\<rparr>)"
proof (rule conjI)
  let ?P = "\<lambda>a. anno_start a \<le> t \<and> t \<le> anno_end a"
  let ?xs = "annotations d"
  have g: "getRenderedAnnotation st t = Inr (find ?P ?xs)"
    using assms by (rule getRenderedAnnotation_find)
  show "\<exists>r. getRenderedAnnotation st t = Inr r \<and>
            (case r of
               None \<Rightarrow> \<forall>a\<in>set ?xs. \<not> (anno_start a \<le> t \<and> t \<le> anno_end a)
             | Some a \<Rightarrow>
                 \<exists>i<length ?xs. a = ?xs ! i \<and>
                   anno_start a \<le> t \<and> t \<le> anno_end a \<and>
                   (\<forall>j<i. \<not> (anno_start (?xs ! j) \<le> t \<and> t \<le> anno_end (?xs ! j))))"
  proof (cases "find ?P ?xs")
    case None
    then have n: "\<forall>a\<in>set ?xs. \<not> ?P a"
      by (simp add: find_None_iff)
    have "getRenderedAnnotation st t = Inr None"
      using None g by simp
    with n show ?thesis
      by (intro exI[of _ None]) simp
  next
    case (Some a)
    then obtain i where "i < length ?xs" "?P (?xs ! i)" "a = ?xs ! i" "\<forall>j<i. \<not> ?P (?xs ! j)"
      unfolding find_Some_iff by blast
    then have s: "\<exists>i<length ?xs. a = ?xs ! i \<and>
                   anno_start a \<le> t \<and> t \<le> anno_end a \<and>
                   (\<forall>j<i. \<not> (anno_start (?xs ! j) \<le> t \<and> t \<le> anno_end (?xs ! j)))"
      by blast
    have "getRenderedAnnotation st t = Inr (Some a)"
      using Some g by simp
    with s show ?thesis
      by (intro exI[of _ "Some a"]) simp
  qed
next
  show "getRenderedAnnotation example_ready (5 / 4) =
          Inr (Some \<lparr>anno_id = 0, anno_start = 0, anno_end = 5 / 4, anno_text = ''hi''\<rparr>)"
    by (rule example_lookup)
qed

theorem getRenderedAnnotation_first_match_witness:
  "getRenderedAnnotation example_ready 2 =
     Inr (Some \<lparr>anno_id = 1, anno_start = 5 / 4, anno_end = 3, anno_text = ''bye''\<rparr>)
   \<and> getRenderedAnnotation example_ready 4 = Inr None"
proof -
  note d = example_ready_data
  have a: "getRenderedAnnotation example_ready 2 =
             Inr (Some \<lparr>anno_id = 1, anno_start = 5 / 4, anno_end = 3, anno_text = ''bye''\<rparr>)"
    using getRenderedAnnotation_first_match[OF d, of 2]
    by (simp add: getRenderedAnnotation_def d)
  have b: "getRenderedAnnotation example_ready 4 = Inr None"
    using getRenderedAnnotation_first_match[OF d, of 4]
    by (simp add: getRenderedAnnotation_def d)
  from a b show ?thesis by simp
qed

subsection \<open>The loader\<close>

lemma map_monologues_enumerate:
  "\<forall>m\<in>set ms. mono_terms m \<noteq> [] \<Longrightarrow>
   map_monologues k ms =
     Inr (map (\<lambda>(i, m). \<lparr>anno_id = i, anno_start = mono_start m, anno_end = mono_end m,
                          anno_text = term_text (hd (mono_terms m))\<rparr>) (enumerate k ms))"
proof (induction ms arbitrary: k)
  case Nil
  then show ?case by simp
next
  case (Cons m ms)
  then obtain t ts where "mono_terms m = t # ts"
    by (cases "mono_terms m") auto
  with Cons show ?case by simp
qed

lemma map_monologues_no_term:
  "m \<in> set ms \<Longrightarrow> mono_terms m = [] \<Longrightarrow> map_monologues k ms = Inl TypeError"
  by (induction ms arbitrary: k) (auto split: list.splits sum.splits)

lemma init_fields [simp]:
  "data (init st) = Some \<lparr>media = (), annotations = []\<rparr>"
  "params (init st) = params st"
  "container (init st) = container st"
  "table (init st) = table st"
  "onClick (init st) = onClick st"
  "page (init st) = page st"
  "fired (init st) = fired st"
  "closures (init st) = closures st"
  by (simp_all add: init_def Let_def)

lemma init_fetches:
  "fetches (init st) =
     (case url (params st) of
        None \<Rightarrow> fetches st
      | Some u \<Rightarrow> if u = [] then fetches st else fetches st @ [u])"
  by (simp add: init_def Let_def truthy_def split: option.splits)

lemma construct_fields:
  assumes "construct qs h ps = Inr st"
  shows "data st = None" "params st = ps" "table st = None" "onClick st = None" "page st = h"
    "fired st = []" "fetches st = []" "closures st = 0"
    "resolveContainer qs (param_container ps) = Inr (Some (container st))"
  using assms by (auto simp add: construct_def split: sum.splits option.splits)

text \<open>
  Claim C4. When every monologue of the fetched document has a term, the loader stores
  one segment for each monologue, in order: the segment at position \<open>i\<close> has id \<open>i\<close>, the
  start and the end of the monologue at position \<open>i\<close>, and the text of its first term;
  the other terms do not appear in it.
\<close>

theorem loader_maps_monologues:
  assumes "\<forall>m\<in>set (monologues doc). mono_terms m \<noteq> []"
    and "data st = Some d" and "fetches st = u # us"
  shows "\<exists>annos. data (deliver ts (Loaded doc) st) = Some (d\<lparr>annotations := annos\<rparr>) \<and>
           length annos = length (monologues doc) \<and>
           (\<forall>i<length annos.
              anno_id (annos ! i) = i \<and>
              anno_start (annos ! i) = mono_start (monologues doc ! i) \<and>
              anno_end (annos ! i) = mono_end (monologues doc ! i) \<and>
              anno_text (annos ! i) = term_text (hd (mono_terms (monologues doc ! i))))"
proof -
  let ?f = "\<lambda>(i, m). \<lparr>anno_id = i, anno_start = mono_start m, anno_end = mono_end m,
                       anno_text = term_text (hd (mono_terms m))\<rparr>"
  let ?annos = "map ?f (enumerate 0 (monologues doc))"
  have m: "map_monologues 0 (monologues doc) = Inr ?annos"
    using assms(1) by (rule map_monologues_enumerate)
  have d: "data (st\<lparr>fetches := us\<rparr>) = Some d"
    using assms(2) by simp
  have "deliver ts (Loaded doc) st =
          (case onJson ts doc (st\<lparr>fetches := us\<rparr>) of Inl (e, s) \<Rightarrow> s | Inr s \<Rightarrow> s)"
    using assms(3) by (simp add: deliver_def)
  then have "data (deliver ts (Loaded doc) st) = Some (d\<lparr>annotations := ?annos\<rparr>)"
    using loaded_data[OF m d, of ts] by simp
  moreover have "length ?annos = length (monologues doc)"
    by simp
  moreover have "\<forall>i<length ?annos.
              anno_id (?annos ! i) = i \<and>
              anno_start (?annos ! i) = mono_start (monologues doc ! i) \<and>
              anno_end (?annos ! i) = mono_end (monologues doc ! i) \<and>
              anno_text (?annos ! i) = term_text (hd (mono_terms (monologues doc ! i)))"
    by (simp add: nth_enumerate_eq)
  ultimately show ?thesis by blast
qed

theorem loader_maps_monologues_witness:
  "\<exists>annos. data example_ready = Some \<lparr>media = (), annotations = annos\<rparr> \<and>
     length annos = 2 \<and>
     (\<forall>i<length annos.
        anno_id (annos ! i) = i \<and>
        anno_start (annos ! i) = mono_start (monologues example_document ! i) \<and>
        anno_end (annos ! i) = mono_end (monologues example_document ! i) \<and>
        anno_text (annos ! i) = term_text (hd (mono_terms (monologues example_document ! i))))"
proof -
  have t: "\<forall>m\<in>set (monologues example_document). mono_terms m \<noteq> []"
    by (simp add: example_document_def)
  have d: "data (init example_constructed) = Some \<lparr>media = (), annotations = []\<rparr>"
    by simp
  have f: "fetches (init example_constructed) = ''transcripts/OGVC_dlg.json'' # []"
    by (simp add: example_init)
  have l: "length (monologues example_document) = 2"
    by (simp add: example_document_def)
  show ?thesis
    using loader_maps_monologues[OF t d f, of example_toString]
    unfolding example_ready_def l by simp
qed

subsection \<open>Construction\<close>

text \<open>
  Claim C5. When the container parameter does not resolve to an element, the constructor
  throws: \<open>No container for Gecko\<close> when the selector matches nothing or the element is
  missing, the exception of \<open>querySelector\<close> when the selector is not valid. No plugin
  comes out of it, and the constructor never touches the page, emits or fetches, not
  even when it succeeds.
\<close>

theorem construct_unresolved_fails:
  assumes "\<forall>c. resolveContainer querySelector (param_container ps) \<noteq> Inr (Some c)"
  shows "(\<exists>e. construct querySelector h ps = Inl e) \<and>
         (resolveContainer querySelector (param_container ps) = Inr None \<longrightarrow>
            construct querySelector h ps = Inl (Error ''No container for Gecko'')) \<and>
         (\<forall>ps' st. construct querySelector h ps' = Inr st \<longrightarrow>
            page st = h \<and> fired st = [] \<and> fetches st = [] \<and> table st = None \<and>
            onClick st = None)"
proof (intro conjI allI impI)
  show "\<exists>e. construct querySelector h ps = Inl e"
    using assms by (auto simp add: construct_def split: sum.splits option.splits)
next
  assume "resolveContainer querySelector (param_container ps) = Inr None"
  then show "construct querySelector h ps = Inl (Error ''No container for Gecko'')"
    by (simp add: construct_def)
next
  fix ps' st
  assume c: "construct querySelector h ps' = Inr st"
  show "page st = h" "fired st = []" "fetches st = []" "table st = None" "onClick st = None"
    using construct_fields[OF c] by simp_all
qed

theorem construct_unresolved_fails_witness:
  "construct example_querySelector example_page
     (example_params\<lparr>param_container := Selector ''#missing''\<rparr>) =
     Inl (Error ''No container for Gecko'')
   \<and> construct example_querySelector example_page
       (example_params\<lparr>param_container := NoContainer\<rparr>) =
       Inl (Error ''No container for Gecko'')
   \<and> page example_constructed = example_page \<and> fired example_constructed = []"
proof -
  let ?p1 = "example_params\<lparr>param_container := Selector ''#missing''\<rparr>"
  let ?p2 = "example_params\<lparr>param_container := NoContainer\<rparr>"
  have r1: "resolveContainer example_querySelector (param_container ?p1) = Inr None"
    by (simp add: resolveContainer_def example_querySelector_def)
  have r2: "resolveContainer example_querySelector (param_container ?p2) = Inr None"
    by (simp add: resolveContainer_def)
  have a1: "\<forall>c. resolveContainer example_querySelector (param_container ?p1) \<noteq> Inr (Some c)"
    using r1 by simp
  have a2: "\<forall>c. resolveContainer example_querySelector (param_container ?p2) \<noteq> Inr (Some c)"
    using r2 by simp
  from construct_unresolved_fails[OF a1, of example_page] r1 example_construct
       construct_unresolved_fails[OF a2, of example_page] r2
  show ?thesis by blast
qed

subsection \<open>Before anything is loaded\<close>

lemma onClick_handler_no_annotations:
  "data st = Some d \<Longrightarrow> annotations d = [] \<Longrightarrow> onClick_handler target st = Inr st"
  by (simp add: onClick_handler_def arrayGet_def split: option.splits)

lemma run_listeners_no_annotations:
  "data st = Some d \<Longrightarrow> annotations d = [] \<Longrightarrow> run_listeners fs target st = st"
  by (induction fs) (simp_all add: onClick_handler_no_annotations)

lemma deliver_idle:
  assumes "data st = Some d" and "annotations d = []" and "fetches st = []"
  shows "deliver ts ev st = st"
proof (cases ev)
  case (Click target)
  then show ?thesis
    using assms by (simp add: deliver_def run_listeners_no_annotations)
next
  case (Loaded jsondata)
  then show ?thesis using assms by (simp add: deliver_def)
next
  case LoadFailed
  then show ?thesis using assms by (simp add: deliver_def)
qed

lemma run_idle:
  assumes "data st = Some d" and "annotations d = []" and "fetches st = []"
  shows "run ts evs st = st"
  by (induction evs) (simp_all add: deliver_idle[OF assms])

lemma init_no_url_idle:
  assumes "construct qs h ps = Inr st" and "url ps = None"
  shows "run ts evs (init st) = init st"
proof -
  have "fetches (init st) = []"
    using construct_fields[OF assms(1)] assms(2) by (simp add: init_fetches)
  then show ?thesis
    by (intro run_idle[where d = "\<lparr>media = (), annotations = []\<rparr>"]) simp_all
qed

text \<open>
  Claim C7. When the \<open>url\<close> parameter is absent, \<open>init\<close> issues no request, leaves the
  page as it was, binds no click handler and emits nothing; and whatever the browser
  delivers afterwards changes nothing, so no \<open>ready\<close> notification is ever emitted.
\<close>

theorem init_without_url_loads_nothing:
  assumes "construct qs h ps = Inr st" and "url ps = None"
  shows "fetches (init st) = [] \<and> page (init st) = h \<and> onClick (init st) = None \<and>
         table (init st) = None \<and> fired (init st) = [] \<and>
         run ts evs (init st) = init st"
  using construct_fields[OF assms(1)] assms(2) init_no_url_idle[OF assms]
  by (simp add: init_fetches)

theorem init_without_url_loads_nothing_witness:
  "fired (run example_toString [Loaded example_document, Click 0, LoadFailed]
            (init (example_constructed\<lparr>params := example_params\<lparr>url := None\<rparr>\<rparr>))) = []
   \<and> page (run example_toString [Loaded example_document, Click 0, LoadFailed]
            (init (example_constructed\<lparr>params := example_params\<lparr>url := None\<rparr>\<rparr>))) =
       example_page"
proof -
  let ?ps = "example_params\<lparr>url := None\<rparr>"
  have c: "construct example_querySelector example_page ?ps =
             Inr (example_constructed\<lparr>params := ?ps\<rparr>)"
    by (simp add: construct_def resolveContainer_def example_querySelector_def
        example_params_def example_constructed_def)
  have u: "url ?ps = None"
    by simp
  show ?thesis
    using init_without_url_loads_nothing[OF c u, of example_toString
        "[Loaded example_document, Click 0, LoadFailed]"]
    by simp
qed

text \<open>
  Claim C9. \<open>destroy\<close> needs a rendered table. Called on a plugin that has none, it
  throws a \<open>TypeError\<close> from \<open>removeChild\<close>; this is so right after construction and
  after \<open>init\<close>, whether or not a url was given, as long as no response has arrived.
\<close>

theorem destroy_before_render_fails:
  assumes "construct qs h ps = Inr st"
  shows "destroy st = Inl (TypeError, st) \<and>
         destroy (init st) = Inl (TypeError, init st) \<and>
         (\<forall>s. table s = None \<longrightarrow> (\<exists>s'. destroy s = Inl (TypeError, s')))"
proof -
  have g: "\<And>s. table s = None \<Longrightarrow> onClick s = None \<Longrightarrow> destroy s = Inl (TypeError, s)"
    by (simp add: destroy_def removeEventListener_def removeChild_def)
  have "\<And>s. table s = None \<Longrightarrow> \<exists>s'. destroy s = Inl (TypeError, s')"
    by (simp add: destroy_def removeChild_def)
  then show ?thesis
    using construct_fields[OF assms] by (simp add: g)
qed

theorem destroy_before_render_fails_witness:
  "destroy example_constructed = Inl (TypeError, example_constructed)
   \<and> destroy (init example_constructed) = Inl (TypeError, init example_constructed)"
  using destroy_before_render_fails[OF example_construct] by simp

text \<open>
  Claim C10. \<open>getRenderedAnnotation\<close> needs \<open>init\<close>. Right after construction the field
  \<open>data\<close> is \<open>null\<close> and the call throws a \<open>TypeError\<close> for every time; after \<open>init\<close> the
  list of annotations is empty and the call returns nothing for every time, and without
  a url this stays so whatever happens.
\<close>

theorem getRenderedAnnotation_needs_init:
  assumes "construct qs h ps = Inr st"
  shows "getRenderedAnnotation st t = Inl TypeError \<and>
         getRenderedAnnotation (init st) t = Inr None \<and>
         (url ps = None \<longrightarrow> getRenderedAnnotation (run ts evs (init st)) t = Inr None)"
proof (intro conjI impI)
  show "getRenderedAnnotation st t = Inl TypeError"
    using construct_fields[OF assms] by (simp add: getRenderedAnnotation_def)
next
  show i: "getRenderedAnnotation (init st) t = Inr None"
    by (simp add: getRenderedAnnotation_def)
  assume "url ps = None"
  then show "getRenderedAnnotation (run ts evs (init st)) t = Inr None"
    using i by (simp add: init_no_url_idle[OF assms])
qed

theorem getRenderedAnnotation_needs_init_witness:
  "getRenderedAnnotation example_constructed (5 / 4) = Inl TypeError
   \<and> getRenderedAnnotation (init example_constructed) (5 / 4) = Inr None"
  using getRenderedAnnotation_needs_init[OF example_construct, of "5 / 4"] by simp

subsection \<open>Operations on freshly created elements\<close>

lemma childless [simp]: "childNodes n = [] \<Longrightarrow> n\<lparr>childNodes := []\<rparr> = n"
  by (cases n) simp

lemma set_id_tail:
  "length h \<le> a \<Longrightarrow>
   set_id a v (h @ ns) = h @ ns[a - length h := (ns ! (a - length h))\<lparr>node_id := v\<rparr>]"
  by (simp add: set_id_def nth_append list_update_append)

lemma set_className_tail:
  "length h \<le> a \<Longrightarrow>
   set_className a v (h @ ns) = h @ ns[a - length h := (ns ! (a - length h))\<lparr>className := v\<rparr>]"
  by (simp add: set_className_def nth_append list_update_append)

lemma set_dataset_tail:
  "length h \<le> a \<Longrightarrow>
   set_dataset a k v (h @ ns) =
     h @ ns[a - length h :=
              (ns ! (a - length h))\<lparr>dataset := assign k v (dataset (ns ! (a - length h)))\<rparr>]"
  by (simp add: set_dataset_def nth_append list_update_append)

lemma set_textContent_tail:
  "length h \<le> a \<Longrightarrow> childNodes (ns ! (a - length h)) = [] \<Longrightarrow>
   set_textContent a v (h @ ns) =
     h @ ns[a - length h := (ns ! (a - length h))\<lparr>textContent := v\<rparr>]"
  by (simp add: set_textContent_def removeChildren_def nth_append list_update_append)

lemma appendChild_tail:
  "length h \<le> p \<Longrightarrow> length h \<le> c \<Longrightarrow> p \<noteq> c \<Longrightarrow>
   parentNode (ns ! (c - length h)) = None \<Longrightarrow>
   appendChild p c (h @ ns) =
     h @ ns[p - length h :=
              (ns ! (p - length h))\<lparr>childNodes := childNodes (ns ! (p - length h)) @ [c]\<rparr>,
            c - length h := (ns ! (c - length h))\<lparr>parentNode := Some p\<rparr>]"
  by (simp add: appendChild_def detach_def nth_append list_update_append nth_list_update)

lemma appendChild_old_new:
  "p < length h \<Longrightarrow> length h \<le> c \<Longrightarrow> parentNode (ns ! (c - length h)) = None \<Longrightarrow>
   appendChild p c (h @ ns) =
     h[p := (h ! p)\<lparr>childNodes := childNodes (h ! p) @ [c]\<rparr>]
     @ ns[c - length h := (ns ! (c - length h))\<lparr>parentNode := Some p\<rparr>]"
  by (simp add: appendChild_def detach_def nth_append list_update_append nth_list_update)

lemma createElement_tail:
  "createElement tag (h @ ns) =
     (length h + length ns,
      h @ ns @ [\<lparr>localName = tag, node_id = [], className = [], dataset = [], textContent = [],
                  childNodes = [], parentNode = None, clickListeners = []\<rparr>])"
  by (simp add: createElement_def)

lemma render_head_closed:
  "render_head h = (length h, length h + 5, h @ head_nodes None (length h) [])"
  by (simp add: render_head_def head_nodes_def createElement_tail[of _ h "[]", simplified]
      createElement_tail set_className_tail set_textContent_tail appendChild_tail)

lemma render_row_closed:
  assumes "tb < length h"
  shows "render_row ts tb a h =
           h[tb := (h ! tb)\<lparr>childNodes := childNodes (h ! tb) @ [length h]\<rparr>]
           @ row_nodes ts tb (length h) a"
  using assms
  by (simp add: render_row_def row_nodes_def createElement_tail[of _ h "[]", simplified]
      createElement_tail set_id_tail set_dataset_tail set_className_tail set_textContent_tail
      appendChild_tail appendChild_old_new)

subsection \<open>The page after rendering\<close>

lemma length_row_nodes [simp]: "length (row_nodes ts tb base a) = 3"
  by (simp add: row_nodes_def)

lemma length_rows_nodes [simp]: "length (rows_nodes ts tb base annos) = 3 * length annos"
  by (induction annos arbitrary: base) simp_all

lemma length_head_nodes [simp]: "length (head_nodes p b rows) = 6"
  by (simp add: head_nodes_def)

lemma render_rows_closed:
  "tb < length h \<Longrightarrow>
   render_rows ts tb annos h =
     h[tb := (h ! tb)\<lparr>childNodes := childNodes (h ! tb) @ rows_addrs (length h) annos\<rparr>]
     @ rows_nodes ts tb (length h) annos"
proof (induction annos arbitrary: h)
  case Nil
  then show ?case by simp
next
  case (Cons a annos)
  let ?n = "(h ! tb)\<lparr>childNodes := childNodes (h ! tb) @ [length h]\<rparr>"
  let ?h = "h[tb := ?n] @ row_nodes ts tb (length h) a"
  have c: "render_row ts tb a h = ?h"
    using Cons.prems by (rule render_row_closed)
  have t: "tb < length ?h"
    using Cons.prems by simp
  have n: "?h ! tb = ?n"
    using Cons.prems by (simp add: nth_append)
  have u: "\<And>x. ?h[tb := x] = h[tb := x] @ row_nodes ts tb (length h) a"
    using Cons.prems by (simp add: list_update_append)
  have "render_rows ts tb (a # annos) h = render_rows ts tb annos ?h"
    by (simp add: c)
  also have "\<dots> = ?h[tb := (?h ! tb)\<lparr>childNodes := childNodes (?h ! tb) @ rows_addrs (length ?h) annos\<rparr>]
                   @ rows_nodes ts tb (length ?h) annos"
    using t by (rule Cons.IH)
  also have "\<dots> = h[tb := (h ! tb)\<lparr>childNodes := childNodes (h ! tb) @ rows_addrs (length h) (a # annos)\<rparr>]
                   @ rows_nodes ts tb (length h) (a # annos)"
    unfolding n u by simp
  finally show ?case .
qed

lemma length_orphan [simp]: "length (orphan cs h) = length h"
  by (induction cs arbitrary: h) simp_all

lemma orphan_append:
  "\<forall>c\<in>set cs. c < length h \<Longrightarrow> orphan cs (h @ ns) = orphan cs h @ ns"
  by (induction cs arbitrary: h) (simp_all add: list_update_append nth_append)

lemma nth_list_update_cases:
  "h[c := x] ! a = (if a = c \<and> c < length h then x else h ! a)"
  by (cases "c < length h") (auto simp add: nth_list_update list_update_beyond)

lemma orphan_step_fields:
  "localName (h[c := (h ! c)\<lparr>parentNode := None\<rparr>] ! a) = localName (h ! a)"
  "node_id (h[c := (h ! c)\<lparr>parentNode := None\<rparr>] ! a) = node_id (h ! a)"
  "className (h[c := (h ! c)\<lparr>parentNode := None\<rparr>] ! a) = className (h ! a)"
  "dataset (h[c := (h ! c)\<lparr>parentNode := None\<rparr>] ! a) = dataset (h ! a)"
  "textContent (h[c := (h ! c)\<lparr>parentNode := None\<rparr>] ! a) = textContent (h ! a)"
  "childNodes (h[c := (h ! c)\<lparr>parentNode := None\<rparr>] ! a) = childNodes (h ! a)"
  "clickListeners (h[c := (h ! c)\<lparr>parentNode := None\<rparr>] ! a) = clickListeners (h ! a)"
  by (simp_all add: nth_list_update_cases)

lemma orphan_fields [simp]:
  "localName (orphan cs h ! a) = localName (h ! a)"
  "node_id (orphan cs h ! a) = node_id (h ! a)"
  "className (orphan cs h ! a) = className (h ! a)"
  "dataset (orphan cs h ! a) = dataset (h ! a)"
  "textContent (orphan cs h ! a) = textContent (h ! a)"
  "childNodes (orphan cs h ! a) = childNodes (h ! a)"
  "clickListeners (orphan cs h ! a) = clickListeners (h ! a)"
  by (induction cs arbitrary: h, simp_all add: orphan_step_fields)+

lemma length_set_innerHTML_empty [simp]: "length (set_innerHTML_empty c h) = length h"
  by (simp add: set_innerHTML_empty_def removeChildren_def Let_def)

lemma set_innerHTML_empty_append:
  assumes "c < length h" and "children_in_page h c"
  shows "set_innerHTML_empty c (h @ ns) = set_innerHTML_empty c h @ ns"
  using assms
  by (simp add: set_innerHTML_empty_def removeChildren_def children_in_page_def nth_append
      orphan_append list_update_append Let_def)

lemma set_innerHTML_empty_node:
  assumes "c < length h"
  shows "localName (set_innerHTML_empty c h ! c) = localName (h ! c)"
    "node_id (set_innerHTML_empty c h ! c) = node_id (h ! c)"
    "className (set_innerHTML_empty c h ! c) = className (h ! c)"
    "dataset (set_innerHTML_empty c h ! c) = dataset (h ! c)"
    "textContent (set_innerHTML_empty c h ! c) = []"
    "childNodes (set_innerHTML_empty c h ! c) = []"
    "clickListeners (set_innerHTML_empty c h ! c) = clickListeners (h ! c)"
  using assms by (simp_all add: set_innerHTML_empty_def removeChildren_def Let_def)

lemma render_dom_closed:
  assumes "c < length h" and "children_in_page h c"
  shows "render_dom ts annos c h =
           (length h,
            (set_innerHTML_empty c h)
              [c := (set_innerHTML_empty c h ! c)\<lparr>childNodes := [length h]\<rparr>]
            @ head_nodes (Some c) (length h) (rows_addrs (length h + 6) annos)
            @ rows_nodes ts (length h + 5) (length h + 6) annos)"
proof -
  let ?b = "length h"
  let ?rows = "rows_addrs (?b + 6) annos"
  let ?R = "rows_nodes ts (?b + 5) (?b + 6) annos"
  let ?g = "set_innerHTML_empty c h"
  have r: "render_rows ts (?b + 5) annos (h @ head_nodes None ?b []) =
             h @ head_nodes None ?b ?rows @ ?R"
    by (simp add: render_rows_closed) (simp add: head_nodes_def list_update_append nth_append)
  have i: "set_innerHTML_empty c (h @ head_nodes None ?b ?rows @ ?R) =
             ?g @ head_nodes None ?b ?rows @ ?R"
    using assms by (rule set_innerHTML_empty_append)
  have a: "appendChild c ?b (?g @ head_nodes None ?b ?rows @ ?R) =
             ?g[c := (?g ! c)\<lparr>childNodes := [?b]\<rparr>] @ head_nodes (Some c) ?b ?rows @ ?R"
    using assms(1)
    by (simp add: appendChild_old_new set_innerHTML_empty_node head_nodes_def)
  show ?thesis
    by (simp add: render_dom_def render_head_closed r i a)
qed

subsection \<open>What the rendered table shows\<close>

lemma view_leaf:
  "childNodes (h ! a) = [] \<Longrightarrow>
   view k h a =
     Tree (localName (h ! a)) (node_id (h ! a)) (className (h ! a)) (dataset (h ! a))
       (textContent (h ! a)) []"
  by (cases k) (simp_all add: view.simps)

lemma view_row:
  assumes "X ! base = row_nodes ts tb base a ! 0"
    and "X ! Suc base = row_nodes ts tb base a ! 1"
    and "X ! Suc (Suc base) = row_nodes ts tb base a ! 2"
  shows "view (Suc k) X base = row_tree ts a"
proof -
  have l1: "view k X (Suc base) =
              Tree ''td'' [] ''wavesurfer-time'' []
                (toFixed ts 1 (anno_start a) @ separator @ toFixed ts 1 (anno_end a)) []"
    by (subst view_leaf) (simp_all add: assms(2) row_nodes_def)
  have l2: "view k X (Suc (Suc base)) =
              Tree ''td'' (''wavesurfer-text-'' @ toDecimal (anno_id a)) ''wavesurfer-tier-''
                [(''ref'', toDecimal (anno_id a)), (''start'', ts (anno_start a)),
                 (''end'', ts (anno_end a))]
                (anno_text a) []"
    by (subst view_leaf) (simp_all add: assms(3) row_nodes_def)
  have "view (Suc k) X base =
          Tree ''tr'' (''wavesurfer-annotation-'' @ toDecimal (anno_id a)) [] [] []
            [view k X (Suc base), view k X (Suc (Suc base))]"
    by (simp add: view.simps assms(1) row_nodes_def)
  then show ?thesis
    unfolding l1 l2 by (simp add: row_tree_def)
qed

lemma view_rows:
  "map (view (Suc k) (P @ rows_nodes ts tb (length P) annos @ S)) (rows_addrs (length P) annos) =
     map (row_tree ts) annos"
proof (induction annos arbitrary: P)
  case Nil
  then show ?case by simp
next
  case (Cons a annos)
  define X where "X = P @ rows_nodes ts tb (length P) (a # annos) @ S"
  let ?P = "P @ row_nodes ts tb (length P) a"
  have x: "X = ?P @ rows_nodes ts tb (length ?P) annos @ S"
    by (simp add: X_def)
  have n0: "X ! length P = row_nodes ts tb (length P) a ! 0"
    by (simp add: X_def nth_append row_nodes_def)
  have n1: "X ! Suc (length P) = row_nodes ts tb (length P) a ! 1"
    by (simp add: X_def nth_append row_nodes_def)
  have n2: "X ! Suc (Suc (length P)) = row_nodes ts tb (length P) a ! 2"
    by (simp add: X_def nth_append row_nodes_def)
  have r: "view (Suc k) X (length P) = row_tree ts a"
    using n0 n1 n2 by (rule view_row)
  have "map (view (Suc k) (?P @ rows_nodes ts tb (length ?P) annos @ S))
          (rows_addrs (length ?P) annos) = map (row_tree ts) annos"
    by (rule Cons.IH)
  then have t: "map (view (Suc k) X) (rows_addrs (length P + 3) annos) = map (row_tree ts) annos"
    unfolding x[symmetric] by simp
  show ?case
    unfolding X_def[symmetric] using r t by simp
qed

lemma view_table:
  assumes "H = G @ head_nodes p (length G) (rows_addrs (length G + 6) annos)
                 @ rows_nodes ts (length G + 5) (length G + 6) annos"
  shows "view (Suc (Suc (Suc k))) H (length G) = table_tree ts annos"
proof -
  let ?b = "length G"
  let ?HN = "head_nodes p ?b (rows_addrs (?b + 6) annos)"
  have n0: "H ! ?b = ?HN ! 0"
    and n1: "H ! Suc ?b = ?HN ! 1"
    and n2: "H ! Suc (Suc ?b) = ?HN ! 2"
    and n3: "H ! (?b + 3) = ?HN ! 3"
    and n4: "H ! (?b + 4) = ?HN ! 4"
    and n5: "H ! (?b + 5) = ?HN ! 5"
    by (simp_all add: assms nth_append)
  have rows: "map (view (Suc k) H) (rows_addrs (?b + 6) annos) = map (row_tree ts) annos"
    using view_rows[of k "G @ ?HN" ts "?b + 5" annos "[]"] by (simp add: assms)
  have th3: "view k H (?b + 3) = Tree ''th'' [] ''wavesurfer-time'' [] ''Time'' []"
    by (subst view_leaf) (simp_all add: n3 head_nodes_def)
  have th4: "view k H (?b + 4) = Tree ''th'' [] ''wavesurfer-tier-'' [] ''Text'' []"
    by (subst view_leaf) (simp_all add: n4 head_nodes_def)
  have tr: "view (Suc k) H (Suc (Suc ?b)) =
              Tree ''tr'' [] [] [] [] [view k H (?b + 3), view k H (?b + 4)]"
    by (simp add: view.simps n2 head_nodes_def)
  have thead: "view (Suc (Suc k)) H (Suc ?b) =
                 Tree ''thead'' [] [] [] [] [view (Suc k) H (Suc (Suc ?b))]"
    by (simp add: view.simps n1 head_nodes_def)
  have tbody: "view (Suc (Suc k)) H (?b + 5) =
                 Tree ''tbody'' [] [] [] [] (map (view (Suc k) H) (rows_addrs (?b + 6) annos))"
    by (simp add: view.simps n5 head_nodes_def)
  have "view (Suc (Suc (Suc k))) H ?b =
          Tree ''table'' [] ''wavesurfer-annotations'' [] []
            [view (Suc (Suc k)) H (Suc ?b), view (Suc (Suc k)) H (?b + 5)]"
    by (simp add: view.simps n0 head_nodes_def)
  then show ?thesis
    unfolding thead tbody tr th3 th4 rows by (simp add: table_tree_def)
qed

subsection \<open>The state after \<open>render\<close>\<close>

lemma orphan_keeps_orphans:
  "parentNode (h ! a) = None \<Longrightarrow> parentNode (orphan cs h ! a) = None"
  by (induction cs arbitrary: h) (simp_all add: nth_list_update_cases)

lemma orphan_parent:
  "a \<in> set cs \<Longrightarrow> a < length h \<Longrightarrow> parentNode (orphan cs h ! a) = None"
proof (induction cs arbitrary: h)
  case Nil
  then show ?case by simp
next
  case (Cons c cs)
  show ?case
  proof (cases "a = c")
    case True
    then show ?thesis
      using Cons.prems by (simp add: orphan_keeps_orphans)
  next
    case False
    then show ?thesis
      using Cons by simp
  qed
qed

lemma render_page:
  assumes "container st < length (page st)" and "children_in_page (page st) (container st)"
  shows "page (render ts annos st) =
           (set_innerHTML_empty (container st) (page st))
              [container st :=
                 (set_innerHTML_empty (container st) (page st) ! container st)
                   \<lparr>childNodes := [length (page st)]\<rparr>]
            @ head_nodes (Some (container st)) (length (page st))
                (rows_addrs (length (page st) + 6) annos)
            @ rows_nodes ts (length (page st) + 5) (length (page st) + 6) annos"
    and "table (render ts annos st) = Some (length (page st))"
  by (simp_all add: render_dom_closed[OF assms])

lemma render_container_node:
  assumes "container st < length (page st)" and "children_in_page (page st) (container st)"
  shows "page (render ts annos st) ! container st =
           (set_innerHTML_empty (container st) (page st) ! container st)
             \<lparr>childNodes := [length (page st)]\<rparr>"
  using assms(1) by (simp add: render_dom_closed[OF assms] nth_append)

lemma render_table_node:
  assumes "container st < length (page st)" and "children_in_page (page st) (container st)"
  shows "page (render ts annos st) ! length (page st) =
           head_nodes (Some (container st)) (length (page st))
             (rows_addrs (length (page st) + 6) annos) ! 0"
  by (simp add: render_dom_closed[OF assms] nth_append)

lemma length_render:
  assumes "container st < length (page st)" and "children_in_page (page st) (container st)"
  shows "length (page (render ts annos st)) = length (page st) + 6 + 3 * length annos"
  by (simp add: render_dom_closed[OF assms])

lemma render_table_view:
  assumes "container st < length (page st)" and "children_in_page (page st) (container st)"
  shows "view (Suc (Suc (Suc k))) (page (render ts annos st)) (length (page st)) =
           table_tree ts annos"
proof -
  let ?G = "(set_innerHTML_empty (container st) (page st))
              [container st :=
                 (set_innerHTML_empty (container st) (page st) ! container st)
                   \<lparr>childNodes := [length (page st)]\<rparr>]"
  have l: "length ?G = length (page st)"
    by simp
  have "page (render ts annos st) =
          ?G @ head_nodes (Some (container st)) (length ?G) (rows_addrs (length ?G + 6) annos)
             @ rows_nodes ts (length ?G + 5) (length ?G + 6) annos"
    unfolding l by (rule render_page(1)[OF assms])
  then have "view (Suc (Suc (Suc k))) (page (render ts annos st)) (length ?G) = table_tree ts annos"
    by (rule view_table)
  then show ?thesis
    unfolding l .
qed

lemma render_container_view:
  assumes "container st < length (page st)" and "children_in_page (page st) (container st)"
  shows "view (Suc (Suc (Suc (Suc k)))) (page (render ts annos st)) (container st) =
           Tree (localName (page st ! container st)) (node_id (page st ! container st))
             (className (page st ! container st)) (dataset (page st ! container st)) []
             [table_tree ts annos]"
proof -
  let ?H = "page (render ts annos st)"
  let ?c = "container st"
  have "view (Suc (Suc (Suc (Suc k)))) ?H ?c =
          Tree (localName (?H ! ?c)) (node_id (?H ! ?c)) (className (?H ! ?c)) (dataset (?H ! ?c))
            (textContent (?H ! ?c)) (map (view (Suc (Suc (Suc k))) ?H) (childNodes (?H ! ?c)))"
    by (rule view.simps(2))
  also have "\<dots> =
          Tree (localName (page st ! ?c)) (node_id (page st ! ?c)) (className (page st ! ?c))
            (dataset (page st ! ?c)) [] [table_tree ts annos]"
    unfolding render_container_node[OF assms] using assms(1)
    by (simp add: set_innerHTML_empty_node render_table_view[OF assms] del: render_fields)
  finally show ?thesis .
qed

lemma render_again:
  assumes "container st < length (page st)" and "children_in_page (page st) (container st)"
  shows "container (render ts annos st) < length (page (render ts annos st))"
    and "children_in_page (page (render ts annos st)) (container (render ts annos st))"
  using assms(1)
  unfolding render_fields(3) children_in_page_def render_container_node[OF assms]
  by (simp_all add: length_render[OF assms] del: render_fields)

lemma render_orphans:
  assumes "container st < length (page st)" and "children_in_page (page st) (container st)"
    and "a \<in> set (childNodes (page st ! container st))" and "a \<noteq> container st"
  shows "parentNode (page (render ts annos st) ! a) = None"
proof -
  have a: "a < length (page st)"
    using assms(2,3) by (simp add: children_in_page_def)
  then show ?thesis
    using assms(3,4)
    by (simp add: render_dom_closed[OF assms(1,2)] nth_append set_innerHTML_empty_def
        removeChildren_def Let_def orphan_parent)
qed

subsection \<open>The state after a response has arrived\<close>

lemma example_wf:
  "container example_constructed < length (page example_constructed)"
  "children_in_page (page example_constructed) (container example_constructed)"
  by (simp_all add: example_constructed_def example_page_def children_in_page_def)

lemma view_addEventListener [simp]:
  "view k (addEventListener a f h) x = view k h x"
  by (induction k arbitrary: x)
    (simp_all add: view.simps addEventListener_def nth_list_update_cases)

lemma bindClick_fields [simp]:
  "data (bindClick st) = data st"
  "params (bindClick st) = params st"
  "container (bindClick st) = container st"
  "table (bindClick st) = table st"
  "onClick (bindClick st) = Some (closures st)"
  "page (bindClick st) = addEventListener (container st) (closures st) (page st)"
  "fired (bindClick st) = fired st"
  "fetches (bindClick st) = fetches st"
  "closures (bindClick st) = Suc (closures st)"
  by (simp_all add: bindClick_def Let_def)

lemma fireEvent_fields [simp]:
  "data (fireEvent n st) = data st"
  "params (fireEvent n st) = params st"
  "container (fireEvent n st) = container st"
  "table (fireEvent n st) = table st"
  "onClick (fireEvent n st) = onClick st"
  "page (fireEvent n st) = page st"
  "fired (fireEvent n st) = fired st @ [n]"
  "fetches (fireEvent n st) = fetches st"
  "closures (fireEvent n st) = closures st"
  by (simp_all add: fireEvent_def)

lemma deliver_loaded:
  assumes "map_monologues 0 (monologues doc) = Inr annos"
    and "data st = Some d" and "fetches st = u # us"
  shows "deliver ts (Loaded doc) st =
           fireEvent (Ready (d\<lparr>annotations := annos\<rparr>))
             (bindClick ((render ts annos (st\<lparr>fetches := us\<rparr>))
                          \<lparr>data := Some (d\<lparr>annotations := annos\<rparr>)\<rparr>))"
proof -
  have d: "data (st\<lparr>fetches := us\<rparr>) = Some d"
    using assms(2) by simp
  show ?thesis
    using assms(3) by (simp add: deliver_def onJson_loaded[OF assms(1) d])
qed

lemma loaded_fields:
  assumes "map_monologues 0 (monologues doc) = Inr annos"
    and "data st = Some d" and "fetches st = u # us"
  shows "data (deliver ts (Loaded doc) st) = Some (d\<lparr>annotations := annos\<rparr>)"
    and "container (deliver ts (Loaded doc) st) = container st"
    and "onClick (deliver ts (Loaded doc) st) = Some (closures st)"
    and "fired (deliver ts (Loaded doc) st) = fired st @ [Ready (d\<lparr>annotations := annos\<rparr>)]"
    and "fetches (deliver ts (Loaded doc) st) = us"
    and "page (deliver ts (Loaded doc) st) =
           addEventListener (container st) (closures st)
             (page (render ts annos (st\<lparr>fetches := us\<rparr>)))"
    and "table (deliver ts (Loaded doc) st) = table (render ts annos (st\<lparr>fetches := us\<rparr>))"
  unfolding deliver_loaded[OF assms] by (simp_all del: render_fields add: render_fields(1-7))

lemma loaded_view:
  assumes "map_monologues 0 (monologues doc) = Inr annos"
    and "data st = Some d" and "fetches st = u # us"
    and "container st < length (page st)" and "children_in_page (page st) (container st)"
  shows "view (Suc (Suc (Suc (Suc k)))) (page (deliver ts (Loaded doc) st)) (container st) =
           Tree (localName (page st ! container st)) (node_id (page st ! container st))
             (className (page st ! container st)) (dataset (page st ! container st)) []
             [table_tree ts annos]"
proof -
  let ?st = "st\<lparr>fetches := us\<rparr>"
  have w: "container ?st < length (page ?st)" "children_in_page (page ?st) (container ?st)"
    using assms(4,5) by simp_all
  show ?thesis
    unfolding loaded_fields(6)[OF assms(1-3)] view_addEventListener
    using render_container_view[OF w, of k ts annos] by simp
qed

lemma example_loaded:
  "map_monologues 0 (monologues example_document) = Inr example_segments"
  "data (init example_constructed) = Some \<lparr>media = (), annotations = []\<rparr>"
  "fetches (init example_constructed) = [''transcripts/OGVC_dlg.json'']"
  "container (init example_constructed) < length (page (init example_constructed))"
  "children_in_page (page (init example_constructed)) (container (init example_constructed))"
  using example_wf by (simp_all add: example_annotations example_segments_def example_init)

lemma example_toFixed:
  "toFixed example_toString 1 0 = ''0.0''"
  "toFixed example_toString 1 (5 / 4) = ''1.3''"
  "toFixed example_toString 1 3 = ''3.0''"
  by code_simp+

lemma example_toDecimal:
  "toDecimal 0 = ''0''" "toDecimal 1 = ''1''"
  by code_simp+

lemma example_toFixed_Suc:
  "toFixed example_toString (Suc 0) 0 = ''0.0''"
  "toFixed example_toString (Suc 0) (5 / 4) = ''1.3''"
  "toFixed example_toString (Suc 0) 3 = ''3.0''"
  using example_toFixed by simp_all

lemma example_toDecimal_Suc:
  "toDecimal (Suc 0) = ''1''"
  using example_toDecimal by simp

lemma deliver_quiet:
  assumes "clickListeners (page st ! container st) = []" and "fetches st = []"
  shows "deliver ts ev st = st"
proof (cases ev)
  case (Click target)
  then show ?thesis using assms by (simp add: deliver_def)
next
  case (Loaded jsondata)
  then show ?thesis using assms by (simp add: deliver_def)
next
  case LoadFailed
  then show ?thesis using assms by (simp add: deliver_def)
qed

lemma run_quiet:
  assumes "clickListeners (page st ! container st) = []" and "fetches st = []"
  shows "run ts evs st = st"
  by (induction evs) (simp_all add: deliver_quiet[OF assms])

text \<open>The state in which a plugin is ready: one listener, the table below the container.\<close>

lemma destroy_ready:
  assumes "onClick st = Some f" and "table st = Some t"
    and "container st < length (page st)" and "t < length (page st)" and "t \<noteq> container st"
    and "clickListeners (page st ! container st) = [f]"
    and "childNodes (page st ! container st) = [t]"
    and "parentNode (page st ! t) = Some (container st)"
  shows "\<exists>st2. destroy st = Inr st2 \<and>
           container st2 = container st \<and> table st2 = Some t \<and> fetches st2 = fetches st \<and>
           fired st2 = fired st \<and>
           clickListeners (page st2 ! container st2) = [] \<and>
           childNodes (page st2 ! container st2) = [] \<and>
           parentNode (page st2 ! t) = None"
proof -
  let ?c = "container st"
  let ?h1 = "removeEventListener ?c (onClick st) (page st)"
  have h1: "?h1 = (page st)[?c := (page st ! ?c)\<lparr>clickListeners := []\<rparr>]"
    using assms(1,6) by (simp add: removeEventListener_def)
  have l1: "length ?h1 = length (page st)"
    by (simp add: h1)
  have c1: "?h1 ! ?c = (page st ! ?c)\<lparr>clickListeners := []\<rparr>"
    using assms(3) by (simp add: h1)
  have t1: "?h1 ! t = page st ! t"
    using assms(5) by (simp add: h1)
  let ?h2 = "?h1[?c := (?h1 ! ?c)\<lparr>childNodes := removeAll t (childNodes (?h1 ! ?c))\<rparr>]"
  let ?h3 = "?h2[t := (?h2 ! t)\<lparr>parentNode := None\<rparr>]"
  have d: "detach t ?h1 = ?h3"
    using assms(8) by (simp add: detach_def t1 Let_def)
  have r: "removeChild ?c (Some t) ?h1 = Inr ?h3"
    using assms(8) by (simp add: removeChild_def t1 d)
  have "destroy st = Inr (st\<lparr>page := ?h3\<rparr>)"
    using r assms(2) by (simp add: destroy_def Let_def)
  moreover have "clickListeners (?h3 ! ?c) = []"
    using assms(3,5) by (simp add: l1 c1)
  moreover have "childNodes (?h3 ! ?c) = []"
    using assms(3,5,7) by (simp add: l1 c1)
  moreover have "parentNode (?h3 ! t) = None"
    using assms(4) by (simp add: l1)
  ultimately show ?thesis
    using assms(2) by simp
qed

lemma loaded_ready:
  assumes "map_monologues 0 (monologues doc) = Inr annos"
    and "data st = Some d" and "fetches st = u # us"
    and "container st < length (page st)" and "children_in_page (page st) (container st)"
    and "closures st \<notin> set (clickListeners (page st ! container st))"
  shows "onClick (deliver ts (Loaded doc) st) = Some (closures st)"
    and "table (deliver ts (Loaded doc) st) = Some (length (page st))"
    and "container (deliver ts (Loaded doc) st) < length (page (deliver ts (Loaded doc) st))"
    and "length (page st) < length (page (deliver ts (Loaded doc) st))"
    and "clickListeners (page (deliver ts (Loaded doc) st) ! container st) =
           clickListeners (page st ! container st) @ [closures st]"
    and "childNodes (page (deliver ts (Loaded doc) st) ! container st) = [length (page st)]"
    and "parentNode (page (deliver ts (Loaded doc) st) ! length (page st)) = Some (container st)"
    and "length (page (deliver ts (Loaded doc) st)) = length (page st) + 6 + 3 * length annos"
proof -
  let ?st = "st\<lparr>fetches := us\<rparr>"
  let ?H = "page (render ts annos ?st)"
  have w: "container ?st < length (page ?st)" "children_in_page (page ?st) (container ?st)"
    using assms(4,5) by simp_all
  have p: "page (deliver ts (Loaded doc) st) = addEventListener (container st) (closures st) ?H"
    by (rule loaded_fields(6)[OF assms(1-3)])
  have len: "length ?H = length (page st) + 6 + 3 * length annos"
    using length_render[OF w, of ts annos] by simp
  have c: "?H ! container st =
             (set_innerHTML_empty (container st) (page st) ! container st)
               \<lparr>childNodes := [length (page st)]\<rparr>"
    using render_container_node[OF w, of ts annos] by simp
  have t: "?H ! length (page st) =
             head_nodes (Some (container st)) (length (page st))
               (rows_addrs (length (page st) + 6) annos) ! 0"
    using render_table_node[OF w, of ts annos] by simp
  show "onClick (deliver ts (Loaded doc) st) = Some (closures st)"
    by (rule loaded_fields(3)[OF assms(1-3)])
  show "table (deliver ts (Loaded doc) st) = Some (length (page st))"
    unfolding loaded_fields(7)[OF assms(1-3)] using render_page(2)[OF w, of ts annos] by simp
  show "length (page (deliver ts (Loaded doc) st)) = length (page st) + 6 + 3 * length annos"
    unfolding p by (simp add: addEventListener_def len del: render_fields)
  then show "container (deliver ts (Loaded doc) st) < length (page (deliver ts (Loaded doc) st))"
    and "length (page st) < length (page (deliver ts (Loaded doc) st))"
    using assms(4) by (simp_all add: loaded_fields(2)[OF assms(1-3)])
  show "clickListeners (page (deliver ts (Loaded doc) st) ! container st) =
           clickListeners (page st ! container st) @ [closures st]"
    unfolding p using assms(4,6)
    by (simp add: addEventListener_def len c set_innerHTML_empty_node del: render_fields)
  show "childNodes (page (deliver ts (Loaded doc) st) ! container st) = [length (page st)]"
    unfolding p using assms(4)
    by (simp add: addEventListener_def len c del: render_fields)
  show "parentNode (page (deliver ts (Loaded doc) st) ! length (page st)) = Some (container st)"
    unfolding p using assms(4)
    by (simp add: addEventListener_def len t head_nodes_def del: render_fields)
qed

text \<open>Once nothing is in flight, what the browser delivers can only add notifications.\<close>

lemma onClick_handler_fires:
  "\<exists>fs. (case onClick_handler target st of Inl (e, s) \<Rightarrow> s | Inr s \<Rightarrow> s) = st\<lparr>fired := fs\<rparr>"
proof (cases "onClick_handler target st = Inr st \<or> onClick_handler target st = Inl (TypeError, st)")
  case True
  then have "(case onClick_handler target st of Inl (e, s) \<Rightarrow> s | Inr s \<Rightarrow> s) =
               st\<lparr>fired := fired st\<rparr>"
    by auto
  then show ?thesis by blast
next
  case False
  then obtain n where "onClick_handler target st = Inr (fireEvent n st)"
    by (auto simp add: onClick_handler_def Let_def split: option.splits)
  then have "(case onClick_handler target st of Inl (e, s) \<Rightarrow> s | Inr s \<Rightarrow> s) =
               st\<lparr>fired := fired st @ [n]\<rparr>"
    by (simp add: fireEvent_def)
  then show ?thesis by blast
qed

lemma run_listeners_fires:
  "\<exists>fs. run_listeners ls target st = st\<lparr>fired := fs\<rparr>"
proof (induction ls arbitrary: st)
  case Nil
  have "run_listeners [] target st = st\<lparr>fired := fired st\<rparr>"
    by simp
  then show ?case by blast
next
  case (Cons l ls)
  obtain x where x: "(case onClick_handler target st of Inl (e, s) \<Rightarrow> s | Inr s \<Rightarrow> s) =
                       st\<lparr>fired := x\<rparr>"
    using onClick_handler_fires by blast
  obtain y where "run_listeners ls target (st\<lparr>fired := x\<rparr>) = st\<lparr>fired := x\<rparr>\<lparr>fired := y\<rparr>"
    using Cons.IH by blast
  then have "run_listeners (l # ls) target st = st\<lparr>fired := y\<rparr>"
    by (simp add: x)
  then show ?case by blast
qed

lemma deliver_fires:
  assumes "fetches st = []"
  shows "\<exists>fs. deliver ts ev st = st\<lparr>fired := fs\<rparr>"
proof -
  have s: "st = st\<lparr>fired := fired st\<rparr>"
    by simp
  show ?thesis
  proof (cases ev)
    case (Click target)
    show ?thesis
    proof (cases "container st \<in> set (eventPath (length (page st)) (page st) target)")
      case True
      then show ?thesis
        using Click run_listeners_fires by (simp add: deliver_def)
    next
      case False
      then have "deliver ts ev st = st"
        using Click by (simp add: deliver_def)
      then show ?thesis using s by metis
    qed
  next
    case (Loaded jsondata)
    then have "deliver ts ev st = st"
      using assms by (simp add: deliver_def)
    then show ?thesis using s by metis
  next
    case LoadFailed
    then have "deliver ts ev st = st"
      using assms by (simp add: deliver_def)
    then show ?thesis using s by metis
  qed
qed

lemma run_fires:
  assumes "fetches st = []"
  shows "\<exists>fs. run ts evs st = st\<lparr>fired := fs\<rparr>"
  using assms
proof (induction evs arbitrary: st)
  case Nil
  have "run ts [] st = st\<lparr>fired := fired st\<rparr>"
    by simp
  then show ?case by blast
next
  case (Cons ev evs)
  obtain x where x: "deliver ts ev st = st\<lparr>fired := x\<rparr>"
    using deliver_fires[OF Cons.prems] by blast
  have "fetches (st\<lparr>fired := x\<rparr>) = []"
    using Cons.prems by simp
  then obtain y where "run ts evs (st\<lparr>fired := x\<rparr>) = st\<lparr>fired := x\<rparr>\<lparr>fired := y\<rparr>"
    using Cons.IH by blast
  then have "run ts (ev # evs) st = st\<lparr>fired := y\<rparr>"
    by (simp add: x)
  then show ?case by blast
qed

subsection \<open>Reading back the index written into \<open>data-ref\<close>\<close>

lemma of_char_digit_char:
  "d < 10 \<Longrightarrow> (of_char (digit_char d) :: nat) = 48 + d"
  by (simp add: digit_char_def)

lemma decimal_digit_digit_char:
  "d < 10 \<Longrightarrow> decimal_digit (digit_char d)"
  by (simp add: decimal_digit_def of_char_digit_char)

lemma toDecimal_digits:
  "\<forall>c\<in>set (toDecimal n). decimal_digit c"
proof (induction n rule: toDecimal.induct)
  case (1 n)
  show ?case
  proof (cases "n < 10")
    case True
    then show ?thesis
      by (subst toDecimal.simps) (simp add: decimal_digit_digit_char)
  next
    case False
    then show ?thesis
      using 1 by (subst toDecimal.simps) (simp add: decimal_digit_digit_char)
  qed
qed

lemma toDecimal_not_empty:
  "toDecimal n \<noteq> []"
  by (subst toDecimal.simps) simp

lemma digitValue_decimal:
  "decimal_digit c \<Longrightarrow> digitValue 10 c = Some (of_char c - 48)"
  by (auto simp add: digitValue_def decimal_digit_def Let_def)

lemma digitsValue_snoc:
  "\<forall>c\<in>set cs. decimal_digit c \<Longrightarrow> decimal_digit c' \<Longrightarrow>
   digitsValue 10 acc (cs @ [c']) = digitsValue 10 acc cs * 10 + (of_char c' - 48)"
  by (induction cs arbitrary: acc) (simp_all add: digitValue_decimal)

lemma digitsValue_toDecimal:
  "digitsValue 10 0 (toDecimal n) = n"
proof (induction n rule: toDecimal.induct)
  case (1 n)
  show ?case
  proof (cases "n < 10")
    case True
    then show ?thesis
      by (subst toDecimal.simps)
        (simp add: digitValue_decimal decimal_digit_digit_char of_char_digit_char)
  next
    case False
    have m: "n mod 10 < 10"
      by simp
    have "digitsValue 10 0 (toDecimal n) =
            digitsValue 10 0 (toDecimal (n div 10) @ [digit_char (n mod 10)])"
      using False by (subst toDecimal.simps) simp
    also have "\<dots> = digitsValue 10 0 (toDecimal (n div 10)) * 10 + n mod 10"
      using toDecimal_digits[of "n div 10"] decimal_digit_digit_char[OF m]
      by (simp add: digitsValue_snoc of_char_digit_char[OF m])
    also have "\<dots> = n"
      using 1 False by simp
    finally show ?thesis .
  qed
qed

lemma decimal_digit_neq:
  "decimal_digit c \<Longrightarrow> \<not> decimal_digit x \<Longrightarrow> c \<noteq> x"
  by auto

lemma startsWith_head:
  "startsWith (c # cs) w \<Longrightarrow> w \<noteq> [] \<Longrightarrow> hd w = c"
  by (cases w) simp_all

lemma whiteSpace_heads:
  "\<forall>w\<in>set whiteSpace. w \<noteq> [] \<and> \<not> decimal_digit (hd w)"
  by (simp add: whiteSpace_def decimal_digit_def)

lemma no_whiteSpace:
  assumes "decimal_digit c"
  shows "filter (startsWith (c # cs)) whiteSpace = []"
proof -
  have "\<forall>w\<in>set whiteSpace. \<not> startsWith (c # cs) w"
    using whiteSpace_heads startsWith_head[of c cs] assms by blast
  then show ?thesis
    by (simp add: filter_empty_conv)
qed

lemma trimStart_digit:
  "decimal_digit c \<Longrightarrow> trimStart k (c # cs) = c # cs"
  by (cases k) (simp_all add: no_whiteSpace)

lemma not_sign:
  assumes "decimal_digit c"
  shows "\<not> startsWith (c # cs) ''-''" "\<not> startsWith (c # cs) ''+''"
  using assms by (auto simp add: decimal_digit_def)

lemma not_hex:
  assumes "\<forall>c\<in>set s. decimal_digit c"
  shows "\<not> startsWith s ''0x''" "\<not> startsWith s ''0X''"
proof -
  have x: "\<not> decimal_digit CHR ''x''" "\<not> decimal_digit CHR ''X''"
    by (simp_all add: decimal_digit_def)
  show "\<not> startsWith s ''0x''"
  proof (cases s)
    case Nil
    then show ?thesis by simp
  next
    case (Cons a t)
    then show ?thesis
      using assms x by (cases t) auto
  qed
  show "\<not> startsWith s ''0X''"
  proof (cases s)
    case Nil
    then show ?thesis by simp
  next
    case (Cons a t)
    then show ?thesis
      using assms x by (cases t) auto
  qed
qed

lemma parseInt_toDecimal:
  "parseInt (toDecimal n) = Some (int n)"
proof -
  obtain c cs where s: "toDecimal n = c # cs"
    using toDecimal_not_empty[of n] by (cases "toDecimal n") auto
  have d: "\<forall>x\<in>set (c # cs). decimal_digit x"
    using toDecimal_digits[of n] unfolding s .
  then have c: "decimal_digit c"
    by simp
  have v: "digitsValue 10 0 (c # cs) = n"
    using digitsValue_toDecimal[of n] unfolding s .
  have "parseInt (c # cs) = Some (int n)"
    unfolding parseInt_def trimStart_digit[OF c]
    using not_sign[OF c, of cs] not_hex[OF d] v digitValue_decimal[OF c]
    by (simp add: Let_def del: digitsValue.simps startsWith.simps)
  then show ?thesis
    unfolding s .
qed

subsection \<open>The path from a rendered cell to the container\<close>

lemma rows_nodes_nth:
  "i < length annos \<Longrightarrow> j < 3 \<Longrightarrow>
   rows_nodes ts tb base annos ! (3 * i + j) = row_nodes ts tb (base + 3 * i) (annos ! i) ! j"
proof (induction annos arbitrary: base i)
  case Nil
  then show ?case by simp
next
  case (Cons a annos)
  show ?case
  proof (cases i)
    case 0
    then show ?thesis
      using Cons.prems by (simp add: nth_append)
  next
    case (Suc i')
    have "rows_nodes ts tb base (a # annos) ! (3 * i + j) =
            rows_nodes ts tb (base + 3) annos ! (3 * i' + j)"
      using Suc by (simp add: nth_append)
    also have "\<dots> = row_nodes ts tb (base + 3 + 3 * i') (annos ! i') ! j"
      using Cons.prems Suc by (intro Cons.IH) simp_all
    finally show ?thesis
      using Suc by (simp add: add.assoc)
  qed
qed

lemma eventPath_step:
  "a < length h \<Longrightarrow> parentNode (h ! a) = Some p \<Longrightarrow>
   eventPath (Suc k) h a = a # eventPath k h p"
  by simp

lemma eventPath_self:
  "a \<in> set (eventPath k h a)"
proof (cases k)
  case 0
  then show ?thesis by simp
next
  case (Suc n)
  show ?thesis
    unfolding Suc eventPath.simps by (rule list.set_intros(1))
qed

lemma loaded_nodes:
  assumes "map_monologues 0 (monologues doc) = Inr annos"
    and "data st = Some d" and "fetches st = u # us"
    and "container st < length (page st)" and "children_in_page (page st) (container st)"
  shows "j < 6 \<Longrightarrow>
           page (deliver ts (Loaded doc) st) ! (length (page st) + j) =
             head_nodes (Some (container st)) (length (page st))
               (rows_addrs (length (page st) + 6) annos) ! j"
    and "i < length annos \<Longrightarrow> j < 3 \<Longrightarrow>
           page (deliver ts (Loaded doc) st) ! (length (page st) + 6 + (3 * i + j)) =
             row_nodes ts (length (page st) + 5) (length (page st) + 6 + 3 * i) (annos ! i) ! j"
proof -
  let ?st = "st\<lparr>fetches := us\<rparr>"
  let ?b = "length (page st)"
  let ?G = "(set_innerHTML_empty (container st) (page st))
              [container st :=
                 (set_innerHTML_empty (container st) (page st) ! container st)
                   \<lparr>childNodes := [?b]\<rparr>]"
  let ?HN = "head_nodes (Some (container st)) ?b (rows_addrs (?b + 6) annos)"
  let ?RN = "rows_nodes ts (?b + 5) (?b + 6) annos"
  have w: "container ?st < length (page ?st)" "children_in_page (page ?st) (container ?st)"
    using assms(4,5) by simp_all
  have H: "page (render ts annos ?st) = ?G @ ?HN @ ?RN"
    using render_page(1)[OF w, of ts annos] by simp
  have p: "page (deliver ts (Loaded doc) st) =
             addEventListener (container st) (closures st) (?G @ ?HN @ ?RN)"
    unfolding loaded_fields(6)[OF assms(1-3)] H ..
  have lg: "length ?G = ?b"
    by simp
  have other: "\<And>a. a \<noteq> container st \<Longrightarrow>
                 page (deliver ts (Loaded doc) st) ! a = (?G @ ?HN @ ?RN) ! a"
    unfolding p by (simp add: addEventListener_def)
  show "page (deliver ts (Loaded doc) st) ! (?b + j) = ?HN ! j" if "j < 6"
  proof -
    have "page (deliver ts (Loaded doc) st) ! (?b + j) = (?G @ ?HN @ ?RN) ! (length ?G + j)"
      unfolding lg using assms(4) by (intro other) simp
    also have "\<dots> = (?HN @ ?RN) ! j"
      by (rule nth_append_length_plus)
    also have "\<dots> = ?HN ! j"
      using that by (simp add: nth_append)
    finally show ?thesis .
  qed
  show "page (deliver ts (Loaded doc) st) ! (?b + 6 + (3 * i + j)) =
          row_nodes ts (?b + 5) (?b + 6 + 3 * i) (annos ! i) ! j"
    if "i < length annos" "j < 3"
  proof -
    have "page (deliver ts (Loaded doc) st) ! (?b + 6 + (3 * i + j)) =
            (?G @ ?HN @ ?RN) ! (?b + 6 + (3 * i + j))"
      using assms(4) by (intro other) simp
    also have "\<dots> = (?G @ ?HN @ ?RN) ! (length ?G + (length ?HN + (3 * i + j)))"
      by (simp add: add.assoc)
    also have "\<dots> = ?RN ! (3 * i + j)"
      by (simp only: nth_append_length_plus)
    also have "\<dots> = row_nodes ts (?b + 5) (?b + 6 + 3 * i) (annos ! i) ! j"
      using that by (rule rows_nodes_nth)
    finally show ?thesis .
  qed
qed

lemma loaded_cell_path:
  assumes "map_monologues 0 (monologues doc) = Inr annos"
    and "data st = Some d" and "fetches st = u # us"
    and "container st < length (page st)" and "children_in_page (page st) (container st)"
    and "i < length annos"
  shows "container st \<in>
           set (eventPath (length (page (deliver ts (Loaded doc) st)))
                  (page (deliver ts (Loaded doc) st)) (length (page st) + 6 + (3 * i + 2)))"
proof -
  let ?P = "page (deliver ts (Loaded doc) st)"
  let ?b = "length (page st)"
  have len: "length ?P = ?b + 6 + 3 * length annos"
  proof -
    let ?st = "st\<lparr>fetches := us\<rparr>"
    have w: "container ?st < length (page ?st)" "children_in_page (page ?st) (container ?st)"
      using assms(4,5) by simp_all
    show ?thesis
      unfolding loaded_fields(6)[OF assms(1-3)]
      using length_render[OF w, of ts annos]
      by (simp add: addEventListener_def del: render_fields)
  qed
  note nodes = loaded_nodes[OF assms(1-5)]
  have cell: "parentNode (?P ! (?b + 6 + (3 * i + 2))) = Some (?b + 6 + 3 * i)"
    using nodes(2)[of i 2] assms(6) by (simp add: row_nodes_def)
  have row: "parentNode (?P ! (?b + 6 + 3 * i)) = Some (?b + 5)"
    using nodes(2)[of i 0] assms(6) by (simp add: row_nodes_def)
  have tbody: "parentNode (?P ! (?b + 5)) = Some ?b"
    using nodes(1)[of 5] by (simp add: head_nodes_def)
  have tbl: "parentNode (?P ! ?b) = Some (container st)"
    using nodes(1)[of 0] by (simp add: head_nodes_def)
  define k where "k = ?b + 2 + 3 * length annos"
  have k: "length ?P = Suc (Suc (Suc (Suc k)))"
    by (simp add: len k_def)
  have "eventPath (length ?P) ?P (?b + 6 + (3 * i + 2)) =
          (?b + 6 + (3 * i + 2)) # (?b + 6 + 3 * i) # (?b + 5) # ?b # eventPath k ?P (container st)"
    unfolding k
    using assms(6) len cell row tbody tbl
    by (simp add: eventPath_step del: eventPath.simps)
  then show ?thesis
    using eventPath_self[of "container st" k ?P] by simp
qed

subsection \<open>What a click does\<close>

lemma deliver_click:
  assumes "data st = Some d"
    and "clickListeners (page st ! container st) = [f]"
    and "container st \<in> set (eventPath (length (page st)) (page st) target)"
  shows "deliver ts (Click target) st =
           (case map_of (dataset (page st ! target)) ''ref'' of
              None \<Rightarrow> st
            | Some ref \<Rightarrow>
                (case arrayGet (annotations d) (parseInt ref) of
                   None \<Rightarrow> st
                 | Some annot \<Rightarrow> fireEvent (Select (anno_start annot) (anno_end annot)) st))"
  using assms
  by (simp add: deliver_def onClick_handler_def Let_def split: option.splits)

lemma arrayGet_index:
  "i < length xs \<Longrightarrow> arrayGet xs (Some (int i)) = Some (xs ! i)"
  by (simp add: arrayGet_def)



text \<open>Clicking the text cell of row \<open>i\<close> selects the monologue at position \<open>i\<close>.\<close>

lemma click_rendered_cell:
  assumes "construct qs h ps = Inr st0"
    and "container st0 < length h" and "children_in_page h (container st0)"
    and "clickListeners (h ! container st0) = []"
    and "url ps = Some u" and "u \<noteq> []"
    and "\<forall>m\<in>set (monologues doc). mono_terms m \<noteq> []"
    and "i < length (monologues doc)"
  shows "deliver ts (Click (length h + 6 + (3 * i + 2))) (deliver ts (Loaded doc) (init st0)) =
           fireEvent (Select (mono_start (monologues doc ! i)) (mono_end (monologues doc ! i)))
             (deliver ts (Loaded doc) (init st0))"
proof -
  let ?i = "init st0"
  let ?R = "deliver ts (Loaded doc) ?i"
  let ?f = "\<lambda>(i, m). \<lparr>anno_id = i, anno_start = mono_start m, anno_end = mono_end m,
                       anno_text = term_text (hd (mono_terms m))\<rparr>"
  let ?annos = "map ?f (enumerate 0 (monologues doc))"
  let ?cell = "length h + 6 + (3 * i + 2)"
  note cf = construct_fields[OF assms(1)]
  have m: "map_monologues 0 (monologues doc) = Inr ?annos"
    using assms(7) by (rule map_monologues_enumerate)
  have d: "data ?i = Some \<lparr>media = (), annotations = []\<rparr>"
    by simp
  have f: "fetches ?i = u # []"
    using cf assms(5,6) by (simp add: init_fetches)
  have w: "container ?i < length (page ?i)" "children_in_page (page ?i) (container ?i)"
    using cf assms(2,3) by simp_all
  have n: "closures ?i \<notin> set (clickListeners (page ?i ! container ?i))"
    using cf assms(4) by simp
  have il: "i < length ?annos"
    using assms(8) by simp
  have ai: "?annos ! i = \<lparr>anno_id = i, anno_start = mono_start (monologues doc ! i),
                          anno_end = mono_end (monologues doc ! i),
                          anno_text = term_text (hd (mono_terms (monologues doc ! i)))\<rparr>"
    using assms(8) by (simp add: nth_enumerate_eq)
  have c: "container ?R = container ?i"
    by (rule loaded_fields(2)[OF m d f])
  have ph: "page ?i = h"
    using cf by simp
  have D: "data ?R = Some \<lparr>media = (), annotations = ?annos\<rparr>"
    using loaded_fields(1)[OF m d f, of ts] by simp
  have L: "clickListeners (page ?R ! container ?R) = [closures ?i]"
    using loaded_ready(5)[OF m d f w n, of ts] cf assms(4) by (simp add: c)
  have P: "container ?R \<in> set (eventPath (length (page ?R)) (page ?R) ?cell)"
    using loaded_cell_path[OF m d f w il, of ts] unfolding c ph .
  have N: "page ?R ! ?cell =
             row_nodes ts (length h + 5) (length h + 6 + 3 * i) (?annos ! i) ! 2"
    using loaded_nodes(2)[OF m d f w il, of 2 ts] unfolding ph by simp
  have ref: "map_of (dataset (page ?R ! ?cell)) ''ref'' = Some (toDecimal i)"
    unfolding N ai by (simp add: row_nodes_def)
  show ?thesis
    unfolding deliver_click[OF D L P] ref
    using assms(8) by (simp add: parseInt_toDecimal arrayGet_index ai del: map_map)
qed

section \<open>Rendering\<close>

text \<open>
  Claim C8. \<open>render\<close> replaces what the container held: afterwards the new table is
  its only child, its text is empty, the elements that were its children have no parent,
  and the table shows the header and one row for each segment (\<open>table_tree\<close>).
  Rendering the same list a second time leaves the container showing the same as after
  the first time. (The container is an element of the page whose children are elements
  of the page.)
\<close>

theorem render_replaces_content:
  assumes "container st < length (page st)" and "children_in_page (page st) (container st)"
  shows "table (render ts annos st) = Some (length (page st)) \<and>
         childNodes (page (render ts annos st) ! container st) = [length (page st)] \<and>
         textContent (page (render ts annos st) ! container st) = [] \<and>
         (\<forall>a\<in>set (childNodes (page st ! container st)).
            a \<noteq> container st \<longrightarrow> parentNode (page (render ts annos st) ! a) = None) \<and>
         view (Suc (Suc (Suc k))) (page (render ts annos st)) (length (page st)) =
           table_tree ts annos \<and>
         view (Suc (Suc (Suc (Suc k)))) (page (render ts annos (render ts annos st)))
           (container st) =
           view (Suc (Suc (Suc (Suc k)))) (page (render ts annos st)) (container st)"
proof -
  let ?st = "render ts annos st"
  note again = render_again[OF assms, of ts annos]
  have n: "page ?st ! container st =
             (set_innerHTML_empty (container st) (page st) ! container st)
               \<lparr>childNodes := [length (page st)]\<rparr>"
    by (rule render_container_node[OF assms])
  have v1: "view (Suc (Suc (Suc (Suc k)))) (page ?st) (container st) =
           Tree (localName (page st ! container st)) (node_id (page st ! container st))
             (className (page st ! container st)) (dataset (page st ! container st)) []
             [table_tree ts annos]"
    by (rule render_container_view[OF assms])
  have v2: "view (Suc (Suc (Suc (Suc k)))) (page (render ts annos ?st)) (container ?st) =
           Tree (localName (page ?st ! container ?st)) (node_id (page ?st ! container ?st))
             (className (page ?st ! container ?st)) (dataset (page ?st ! container ?st)) []
             [table_tree ts annos]"
    by (rule render_container_view[OF again])
  have "view (Suc (Suc (Suc (Suc k)))) (page (render ts annos ?st)) (container st) =
          view (Suc (Suc (Suc (Suc k)))) (page ?st) (container st)"
    using v2 assms(1) unfolding v1 render_fields(3) n
    by (simp add: set_innerHTML_empty_node del: render_fields)
  moreover have "\<forall>a\<in>set (childNodes (page st ! container st)).
            a \<noteq> container st \<longrightarrow> parentNode (page ?st ! a) = None"
    using render_orphans[OF assms] by blast
  ultimately show ?thesis
    using assms(1) render_table_view[OF assms, of k ts annos]
    unfolding n render_page(2)[OF assms]
    by (simp add: set_innerHTML_empty_node del: render_fields)
qed

theorem render_replaces_content_witness:
  "childNodes (page (render example_toString example_segments example_constructed) ! 0) = [2]
   \<and> parentNode (page (render example_toString example_segments example_constructed) ! 1) = None
   \<and> view (Suc (Suc (Suc (Suc 0))))
         (page (render example_toString example_segments
                 (render example_toString example_segments example_constructed))) 0 =
       view (Suc (Suc (Suc (Suc 0))))
         (page (render example_toString example_segments example_constructed)) 0"
  using render_replaces_content[OF example_wf, of example_toString example_segments 0]
  by (simp add: example_constructed_def example_page_def del: render_fields)

lemma table_tree_rows:
  "t_children (t_children (table_tree ts annos) ! 1) = map (row_tree ts) annos"
  "t_children (hd (t_children (hd (t_children (table_tree ts annos))))) =
     [Tree ''th'' [] ''wavesurfer-time'' [] ''Time'' [],
      Tree ''th'' [] ''wavesurfer-tier-'' [] ''Text'' []]"
  by (simp_all add: table_tree_def)

text \<open>
  Claim C2, on the example of the specification. Rendering gives the header row
  (\<open>Time\<close>, \<open>Text\<close>) and one body row for each of the two monologues, with the times
  formatted by \<open>toFixed(1)\<close> and the text of the first term. The separator between
  the two times is the string literal of the source, eight bytes that are not the three
  bytes of an en dash: the time cells are not \<open>0.0\<close>, en dash, \<open>1.3\<close> and
  \<open>1.3\<close>, en dash, \<open>3.0\<close>. (For every document, \<open>loaded_view\<close> gives the table of
  \<open>table_tree\<close>: the header row, one body row for each monologue, and this separator.)
\<close>

theorem render_example_time_cells:
  "view (Suc (Suc (Suc (Suc 0)))) (page example_ready) (container example_ready) =
     Tree ''div'' ''annotations'' [] [] []
       [Tree ''table'' [] ''wavesurfer-annotations'' [] []
          [Tree ''thead'' [] [] [] []
             [Tree ''tr'' [] [] [] []
                [Tree ''th'' [] ''wavesurfer-time'' [] ''Time'' [],
                 Tree ''th'' [] ''wavesurfer-tier-'' [] ''Text'' []]],
           Tree ''tbody'' [] [] [] []
             [Tree ''tr'' ''wavesurfer-annotation-0'' [] [] []
                [Tree ''td'' [] ''wavesurfer-time'' [] (''0.0'' @ separator @ ''1.3'') [],
                 Tree ''td'' ''wavesurfer-text-0'' ''wavesurfer-tier-''
                   [(''ref'', ''0''), (''start'', ''0''), (''end'', ''1.25'')] ''hi'' []],
              Tree ''tr'' ''wavesurfer-annotation-1'' [] [] []
                [Tree ''td'' [] ''wavesurfer-time'' [] (''1.3'' @ separator @ ''3.0'') [],
                 Tree ''td'' ''wavesurfer-text-1'' ''wavesurfer-tier-''
                   [(''ref'', ''1''), (''start'', ''1.25''), (''end'', ''3'')] ''bye'' []]]]]
   \<and> ''0.0'' @ separator @ ''1.3'' \<noteq> ''0.0'' @ en_dash @ ''1.3''
   \<and> ''1.3'' @ separator @ ''3.0'' \<noteq> ''1.3'' @ en_dash @ ''3.0''"
proof (intro conjI)
  have c: "container example_ready = container (init example_constructed)"
    unfolding example_ready_def by (rule loaded_fields(2)[OF example_loaded(1-3)])
  have "view (Suc (Suc (Suc (Suc 0)))) (page example_ready) (container (init example_constructed)) =
          Tree ''div'' ''annotations'' [] [] [] [table_tree example_toString example_segments]"
    unfolding example_ready_def loaded_view[OF example_loaded]
    by (simp add: example_constructed_def example_page_def)
  then show "view (Suc (Suc (Suc (Suc 0)))) (page example_ready) (container example_ready) =
     Tree ''div'' ''annotations'' [] [] []
       [Tree ''table'' [] ''wavesurfer-annotations'' [] []
          [Tree ''thead'' [] [] [] []
             [Tree ''tr'' [] [] [] []
                [Tree ''th'' [] ''wavesurfer-time'' [] ''Time'' [],
                 Tree ''th'' [] ''wavesurfer-tier-'' [] ''Text'' []]],
           Tree ''tbody'' [] [] [] []
             [Tree ''tr'' ''wavesurfer-annotation-0'' [] [] []
                [Tree ''td'' [] ''wavesurfer-time'' [] (''0.0'' @ separator @ ''1.3'') [],
                 Tree ''td'' ''wavesurfer-text-0'' ''wavesurfer-tier-''
                   [(''ref'', ''0''), (''start'', ''0''), (''end'', ''1.25'')] ''hi'' []],
              Tree ''tr'' ''wavesurfer-annotation-1'' [] [] []
                [Tree ''td'' [] ''wavesurfer-time'' [] (''1.3'' @ separator @ ''3.0'') [],
                 Tree ''td'' ''wavesurfer-text-1'' ''wavesurfer-tier-''
                   [(''ref'', ''1''), (''start'', ''1.25''), (''end'', ''3'')] ''bye'' []]]]]"
    unfolding c
    by (simp add: table_tree_def row_tree_def example_segments_def example_toFixed_Suc
        example_toDecimal example_toDecimal_Suc example_toString_def)
next
  show "''0.0'' @ separator @ ''1.3'' \<noteq> ''0.0'' @ en_dash @ ''1.3''"
    by (simp add: separator_def en_dash_def)
next
  show "''1.3'' @ separator @ ''3.0'' \<noteq> ''1.3'' @ en_dash @ ''3.0''"
    by (simp add: separator_def en_dash_def)
qed

section \<open>Interaction and teardown\<close>

subsection \<open>Teardown when \<open>init\<close> has run twice\<close>

lemma destroy_page:
  assumes "onClick st = Some f" and "table st = Some t"
    and "container st < length (page st)" and "t < length (page st)" and "t \<noteq> container st"
    and "childNodes (page st ! container st) = [t]"
    and "parentNode (page st ! t) = Some (container st)"
  shows "\<exists>P. destroy st = Inr (st\<lparr>page := P\<rparr>) \<and> length P = length (page st) \<and>
           clickListeners (P ! container st) =
             removeAll f (clickListeners (page st ! container st)) \<and>
           childNodes (P ! container st) = [] \<and>
           parentNode (P ! t) = None"
proof -
  let ?c = "container st"
  let ?ls = "removeAll f (clickListeners (page st ! ?c))"
  let ?h1 = "removeEventListener ?c (onClick st) (page st)"
  have h1: "?h1 = (page st)[?c := (page st ! ?c)\<lparr>clickListeners := ?ls\<rparr>]"
    using assms(1) by (simp add: removeEventListener_def)
  have l1: "length ?h1 = length (page st)"
    by (simp add: h1)
  have c1: "?h1 ! ?c = (page st ! ?c)\<lparr>clickListeners := ?ls\<rparr>"
    using assms(3) by (simp add: h1)
  have t1: "?h1 ! t = page st ! t"
    using assms(5) by (simp add: h1)
  let ?h2 = "?h1[?c := (?h1 ! ?c)\<lparr>childNodes := removeAll t (childNodes (?h1 ! ?c))\<rparr>]"
  let ?h3 = "?h2[t := (?h2 ! t)\<lparr>parentNode := None\<rparr>]"
  have d: "detach t ?h1 = ?h3"
    using assms(7) by (simp add: detach_def t1 Let_def)
  have r: "removeChild ?c (Some t) ?h1 = Inr ?h3"
    using assms(7) by (simp add: removeChild_def t1 d)
  have "destroy st = Inr (st\<lparr>page := ?h3\<rparr>)"
    using r assms(2) by (simp add: destroy_def Let_def)
  moreover have "length ?h3 = length (page st)"
    by (simp add: l1)
  moreover have "clickListeners (?h3 ! ?c) = ?ls"
    using assms(3,5) by (simp add: l1 c1)
  moreover have "childNodes (?h3 ! ?c) = []"
    using assms(3,5,6) by (simp add: l1 c1)
  moreover have "parentNode (?h3 ! t) = None"
    using assms(4) by (simp add: l1)
  ultimately show ?thesis
    by blast
qed

lemma loaded_closures:
  assumes "map_monologues 0 (monologues doc) = Inr annos"
    and "data st = Some d" and "fetches st = u # us"
  shows "closures (deliver ts (Loaded doc) st) = Suc (closures st)"
  unfolding deliver_loaded[OF assms] by simp

text \<open>The example, initialised twice: two requests are in flight.\<close>

lemma example_init_twice:
  "data (init (init example_constructed)) = Some \<lparr>media = (), annotations = []\<rparr>"
  "fetches (init (init example_constructed)) =
     ''transcripts/OGVC_dlg.json'' # [''transcripts/OGVC_dlg.json'']"
  "container (init (init example_constructed)) < length (page (init (init example_constructed)))"
  "children_in_page (page (init (init example_constructed)))
     (container (init (init example_constructed)))"
  "closures (init (init example_constructed)) \<notin>
     set (clickListeners (page (init (init example_constructed)) !
                            container (init (init example_constructed))))"
  "container (init (init example_constructed)) = 0"
  "length (page (init (init example_constructed))) = 2"
  "closures (init (init example_constructed)) = 0"
  "fired (init (init example_constructed)) = []"
  "clickListeners (page (init (init example_constructed)) ! 0) = []"
  by (simp_all add: init_fetches example_init example_constructed_def example_params_def
      example_page_def children_in_page_def)

lemma example_first_response:
  defines "s2 \<equiv> init (init example_constructed)"
  defines "s3 \<equiv> deliver example_toString (Loaded example_document) s2"
  shows "data s3 = Some \<lparr>media = (), annotations = example_segments\<rparr>"
    and "fetches s3 = [''transcripts/OGVC_dlg.json'']"
    and "fired s3 = [Ready \<lparr>media = (), annotations = example_segments\<rparr>]"
    and "container s3 = 0"
    and "closures s3 = 1"
    and "onClick s3 = Some 0"
    and "table s3 = Some 2"
    and "length (page s3) = 14"
    and "clickListeners (page s3 ! 0) = [0]"
    and "childNodes (page s3 ! 0) = [2]"
    and "parentNode (page s3 ! 2) = Some 0"
proof -
  note i = example_init_twice[folded s2_def]
  note m = example_loaded(1)
  note lf = loaded_fields[OF m i(1,2), of example_toString, folded s3_def]
  note lr = loaded_ready[OF m i(1-5), of example_toString, folded s3_def]
  have sl: "length example_segments = 2"
    by (simp add: example_segments_def)
  show "data s3 = Some \<lparr>media = (), annotations = example_segments\<rparr>"
    using lf(1) by simp
  show "fetches s3 = [''transcripts/OGVC_dlg.json'']"
    by (rule lf(5))
  show "fired s3 = [Ready \<lparr>media = (), annotations = example_segments\<rparr>]"
    using lf(4) i(9) by simp
  show "container s3 = 0"
    using lf(2) i(6) by simp
  show "closures s3 = 1"
    using loaded_closures[OF m i(1,2), of example_toString, folded s3_def] i(8) by simp
  show "onClick s3 = Some 0"
    using lr(1) i(8) by simp
  show "table s3 = Some 2"
    using lr(2) i(7) by simp
  show "length (page s3) = 14"
    using lr(8) i(7) sl by simp
  show "clickListeners (page s3 ! 0) = [0]"
    using lr(5) i(6,8,10) by simp
  show "childNodes (page s3 ! 0) = [2]"
    using lr(6) i(6,7) by simp
  show "parentNode (page s3 ! 2) = Some 0"
    using lr(7) i(6,7) by simp
qed

subsection \<open>Teardown after one \<open>init\<close>\<close>

text \<open>
  Teardown in the life cycle of the specification. Take a plugin constructed on a page
  where the container is an element with its children in the page and no listener of
  the plugin yet, with a url, initialised once, whose response has arrived with a
  document in which every monologue has a term, and which has then been used for a while
  (the events \<open>used\<close>). Then \<open>destroy\<close> returns normally; afterwards the container has
  no click listener and no child, the table has no parent, and whatever the browser
  delivers (clicks on any element, the removed cells included, or responses) changes
  nothing: no notification is emitted after teardown.
\<close>

lemma destroy_silences:
  assumes "construct qs h ps = Inr st0"
    and "container st0 < length h" and "children_in_page h (container st0)"
    and "clickListeners (h ! container st0) = []"
    and "url ps = Some u" and "u \<noteq> []"
    and "\<forall>m\<in>set (monologues doc). mono_terms m \<noteq> []"
  shows "\<exists>st2 t. destroy (run ts used (deliver ts (Loaded doc) (init st0))) = Inr st2 \<and>
           table st2 = Some t \<and>
           clickListeners (page st2 ! container st2) = [] \<and>
           childNodes (page st2 ! container st2) = [] \<and>
           parentNode (page st2 ! t) = None \<and>
           (\<forall>evs. run ts evs st2 = st2) \<and>
           (\<forall>evs. fired (run ts evs st2) =
                    fired (run ts used (deliver ts (Loaded doc) (init st0))))"
proof -
  let ?i = "init st0"
  let ?R = "deliver ts (Loaded doc) ?i"
  note cf = construct_fields[OF assms(1)]
  obtain annos where m: "map_monologues 0 (monologues doc) = Inr annos"
    using map_monologues_enumerate[OF assms(7)] by blast
  have d: "data ?i = Some \<lparr>media = (), annotations = []\<rparr>"
    by simp
  have f: "fetches ?i = u # []"
    using cf assms(5,6) by (simp add: init_fetches)
  have w: "container ?i < length (page ?i)" "children_in_page (page ?i) (container ?i)"
    using cf assms(2,3) by simp_all
  have n: "closures ?i \<notin> set (clickListeners (page ?i ! container ?i))"
    using cf assms(4) by simp
  note r = loaded_ready[OF m d f w n, of ts]
  have r5: "clickListeners (page ?R ! container ?R) = [closures ?i]"
    using r(5) cf assms(4) by (simp add: loaded_fields(2)[OF m d f])
  have c: "container ?R = container ?i"
    by (rule loaded_fields(2)[OF m d f])
  have q: "fetches ?R = []"
    by (rule loaded_fields(5)[OF m d f])
  obtain fs where u: "run ts used ?R = ?R\<lparr>fired := fs\<rparr>"
    using run_fires[OF q] by blast
  let ?U = "?R\<lparr>fired := fs\<rparr>"
  have "\<exists>st2. destroy ?U = Inr st2 \<and>
           container st2 = container ?U \<and> table st2 = Some (length (page ?i)) \<and>
           fetches st2 = fetches ?U \<and> fired st2 = fired ?U \<and>
           clickListeners (page st2 ! container st2) = [] \<and>
           childNodes (page st2 ! container st2) = [] \<and>
           parentNode (page st2 ! length (page ?i)) = None"
  proof (rule destroy_ready)
    show "onClick ?U = Some (closures ?i)" using r(1) by simp
    show "table ?U = Some (length (page ?i))" using r(2) by simp
    show "container ?U < length (page ?U)" using r(3) by simp
    show "length (page ?i) < length (page ?U)" using r(4) by simp
    show "length (page ?i) \<noteq> container ?U" using w(1) c by simp
    show "clickListeners (page ?U ! container ?U) = [closures ?i]" using r5 by simp
    show "childNodes (page ?U ! container ?U) = [length (page ?i)]" using r(6) c by simp
    show "parentNode (page ?U ! length (page ?i)) = Some (container ?U)" using r(7) c by simp
  qed
  then obtain st2 where s: "destroy ?U = Inr st2" "table st2 = Some (length (page ?i))"
    "fetches st2 = fetches ?U" "fired st2 = fired ?U"
    "clickListeners (page st2 ! container st2) = []"
    "childNodes (page st2 ! container st2) = []"
    "parentNode (page st2 ! length (page ?i)) = None"
    by blast
  have q2: "fetches st2 = []"
    using s(3) q by simp
  have "\<forall>evs. run ts evs st2 = st2"
    using run_quiet[OF s(5) q2] by blast
  then show ?thesis
    unfolding u using s by auto
qed

lemma destroy_silences_example:
  "\<exists>st2. destroy (run example_toString [Click 10, Click 0] example_ready) = Inr st2 \<and>
     clickListeners (page st2 ! container st2) = [] \<and>
     fired (run example_toString [Click 10, Click 13, Click 0, Loaded example_document] st2) =
       fired (run example_toString [Click 10, Click 0] example_ready)"
proof -
  have c: "container example_constructed < length example_page"
    "children_in_page example_page (container example_constructed)"
    "clickListeners (example_page ! container example_constructed) = []"
    by (simp_all add: example_constructed_def example_page_def children_in_page_def)
  have u: "url example_params = Some ''transcripts/OGVC_dlg.json''"
    "''transcripts/OGVC_dlg.json'' \<noteq> []"
    by (simp_all add: example_params_def)
  have t: "\<forall>m\<in>set (monologues example_document). mono_terms m \<noteq> []"
    by (simp add: example_document_def)
  show ?thesis
    using destroy_silences[OF example_construct c u t, of example_toString "[Click 10, Click 0]"]
    unfolding example_ready_def by blast
qed

subsection \<open>Teardown and clicks\<close>

text \<open>
  Claim C6, where the code breaks it. After teardown the click listener and the table
  are to be gone, and no \<open>select\<close> notification is to follow. \<open>init\<close> has no guard
  against a second call: called twice, it leaves two requests in flight, and \<open>bindClick\<close>
  runs once for each response, overwriting \<open>_onClick\<close>, so that \<open>destroy\<close> removes only
  the listener bound last. On the example, initialised twice:
  \<^item> \<open>destroy\<close> after the first response returns normally and leaves the container with no
    listener and no child; then the second response arrives, the table is rendered and a
    listener bound again, and a click on the new text cell of row 0 (element 22) emits
    \<open>select(0, 1.25)\<close>, after teardown;
  \<^item> \<open>destroy\<close> after both responses returns normally and leaves the listener of the
    first response on the container.
\<close>

theorem destroy_after_second_init:
  "(case destroy (deliver example_toString (Loaded example_document)
                   (init (init example_constructed))) of
      Inl e \<Rightarrow> False
    | Inr st2 \<Rightarrow>
        clickListeners (page st2 ! container st2) = [] \<and>
        childNodes (page st2 ! container st2) = [] \<and>
        fired (run example_toString [Loaded example_document, Click 22] st2) =
          fired st2 @ [Ready \<lparr>media = (), annotations = example_segments\<rparr>,
                       Select 0 (5 / 4)])
   \<and> (case destroy (run example_toString [Loaded example_document, Loaded example_document]
                      (init (init example_constructed))) of
        Inl e \<Rightarrow> False
      | Inr st2 \<Rightarrow> clickListeners (page st2 ! container st2) = [0])"
proof (rule conjI)
  let ?ts = example_toString
  let ?doc = example_document
  let ?s3 = "deliver ?ts (Loaded ?doc) (init (init example_constructed))"
  let ?D = "\<lparr>media = (), annotations = example_segments\<rparr>"
  note f = example_first_response
  note m = example_loaded(1)
  have "\<exists>P. destroy ?s3 = Inr (?s3\<lparr>page := P\<rparr>) \<and> length P = length (page ?s3) \<and>
           clickListeners (P ! container ?s3) =
             removeAll 0 (clickListeners (page ?s3 ! container ?s3)) \<and>
           childNodes (P ! container ?s3) = [] \<and>
           parentNode (P ! 2) = None"
    by (rule destroy_page) (simp_all add: f)
  then obtain P where P: "destroy ?s3 = Inr (?s3\<lparr>page := P\<rparr>)" "length P = 14"
    "clickListeners (P ! 0) = []" "childNodes (P ! 0) = []"
    by (auto simp add: f)
  let ?s4 = "?s3\<lparr>page := P\<rparr>"
  have d4: "data ?s4 = Some ?D"
    by (simp add: f)
  have f4: "fetches ?s4 = ''transcripts/OGVC_dlg.json'' # []"
    by (simp add: f)
  have w4: "container ?s4 < length (page ?s4)" "children_in_page (page ?s4) (container ?s4)"
    by (simp_all add: f P children_in_page_def)
  have n4: "closures ?s4 \<notin> set (clickListeners (page ?s4 ! container ?s4))"
    by (simp add: f P)
  let ?s5 = "deliver ?ts (Loaded ?doc) ?s4"
  have il: "0 < length example_segments"
    by (simp add: example_segments_def)
  have c5: "container ?s5 = 0"
    using loaded_fields(2)[OF m d4 f4, of ?ts] by (simp add: f)
  have D5: "data ?s5 = Some ?D"
    using loaded_fields(1)[OF m d4 f4, of ?ts] by simp
  have F5: "fired ?s5 = fired ?s4 @ [Ready ?D]"
    using loaded_fields(4)[OF m d4 f4, of ?ts] by simp
  have L5: "clickListeners (page ?s5 ! container ?s5) = [1]"
    unfolding c5 using loaded_ready(5)[OF m d4 f4 w4 n4, of ?ts] by (simp add: f P)
  have P5: "container ?s5 \<in> set (eventPath (length (page ?s5)) (page ?s5) 22)"
    unfolding c5 using loaded_cell_path[OF m d4 f4 w4 il, of ?ts] by (simp add: f P)
  have N5: "dataset (page ?s5 ! 22) = [(''ref'', ''0''), (''start'', ''0''), (''end'', ''1.25'')]"
    using loaded_nodes(2)[OF m d4 f4 w4 il, of 2 ?ts]
    by (simp add: P row_nodes_def example_segments_def example_toDecimal example_toString_def)
  have p: "parseInt ''0'' = Some (int 0)"
    using parseInt_toDecimal[of 0] by (simp add: example_toDecimal)
  have "deliver ?ts (Click 22) ?s5 = fireEvent (Select 0 (5 / 4)) ?s5"
    unfolding deliver_click[OF D5 L5 P5] N5
    using p by (simp add: arrayGet_def example_segments_def)
  then have "fired (run ?ts [Loaded ?doc, Click 22] ?s4) = fired ?s4 @ [Ready ?D, Select 0 (5 / 4)]"
    by (simp add: F5)
  then show "case destroy ?s3 of
      Inl e \<Rightarrow> False
    | Inr st2 \<Rightarrow>
        clickListeners (page st2 ! container st2) = [] \<and>
        childNodes (page st2 ! container st2) = [] \<and>
        fired (run ?ts [Loaded ?doc, Click 22] st2) =
          fired st2 @ [Ready ?D, Select 0 (5 / 4)]"
    unfolding P(1) using P(3,4) by (simp add: f)
next
  let ?ts = example_toString
  let ?doc = example_document
  let ?s3 = "deliver ?ts (Loaded ?doc) (init (init example_constructed))"
  let ?D = "\<lparr>media = (), annotations = example_segments\<rparr>"
  note f = example_first_response
  note m = example_loaded(1)
  have d3: "data ?s3 = Some ?D"
    by (rule f(1))
  have f3: "fetches ?s3 = ''transcripts/OGVC_dlg.json'' # []"
    by (rule f(2))
  have w3: "container ?s3 < length (page ?s3)" "children_in_page (page ?s3) (container ?s3)"
    by (simp_all add: f children_in_page_def)
  have n3: "closures ?s3 \<notin> set (clickListeners (page ?s3 ! container ?s3))"
    by (simp add: f)
  let ?s4 = "deliver ?ts (Loaded ?doc) ?s3"
  note lr = loaded_ready[OF m d3 f3 w3 n3, of ?ts]
  have c4: "container ?s4 = 0"
    using loaded_fields(2)[OF m d3 f3, of ?ts] by (simp add: f)
  have "\<exists>P. destroy ?s4 = Inr (?s4\<lparr>page := P\<rparr>) \<and> length P = length (page ?s4) \<and>
           clickListeners (P ! container ?s4) =
             removeAll 1 (clickListeners (page ?s4 ! container ?s4)) \<and>
           childNodes (P ! container ?s4) = [] \<and>
           parentNode (P ! 14) = None"
  proof (rule destroy_page)
    show "onClick ?s4 = Some 1" using lr(1) by (simp add: f)
    show "table ?s4 = Some 14" using lr(2) by (simp add: f)
    show "container ?s4 < length (page ?s4)" by (rule lr(3))
    show "14 < length (page ?s4)" using lr(4) by (simp add: f)
    show "14 \<noteq> container ?s4" by (simp add: c4)
    show "childNodes (page ?s4 ! container ?s4) = [14]" unfolding c4 using lr(6) by (simp add: f)
    show "parentNode (page ?s4 ! 14) = Some (container ?s4)"
      unfolding c4 using lr(7) by (simp add: f)
  qed
  moreover have "clickListeners (page ?s4 ! container ?s4) = [0, 1]"
    unfolding c4 using lr(5) by (simp add: f)
  ultimately obtain P where "destroy ?s4 = Inr (?s4\<lparr>page := P\<rparr>)"
    "clickListeners (P ! 0) = [0]"
    by (auto simp add: c4)
  then show "case destroy (run ?ts [Loaded ?doc, Loaded ?doc] (init (init example_constructed))) of
        Inl e \<Rightarrow> False
      | Inr st2 \<Rightarrow> clickListeners (page st2 ! container st2) = [0]"
    by (simp add: c4)
qed



end
